theory Spec2Isabelle
  imports Main "HOL-Library.Word" "HOL-Library.Signed_Division"
begin

unbundle bit_operations_syntax

text \<open>
  A verification development for the firmware demos of the Pico 2 W repository: the ASCII
  clock, the to-do list, the web server and the shell OS (its two variants share the
  functions treated here word for word, except \<^verbatim>\<open>view_log\<close>, taken from
  \<^verbatim>\<open>pico-shell-based-os\<close>). The first part embeds the C++ functions, the second proves
  their properties.

  Conventions of the embedding. An \<^verbatim>\<open>int\<close> of the target (32 bits) is an \<open>int\<close> here;
  where the code increments one, the two's complement wrap-around is written out
  (\<open>int32\<close>). \<^verbatim>\<open>/\<close> and \<^verbatim>\<open>%\<close> on \<^verbatim>\<open>int\<close> are \<open>sdiv\<close> and \<open>smod\<close>, which
  truncate as C does. Unsigned 32-bit and 64-bit values are words. Output is a list of
  strings, one for each output call. Library functions the repository does not define
  (\<^verbatim>\<open>gmtime\<close>, \<^verbatim>\<open>localtime\<close>, the LittleFS calls, \<^verbatim>\<open>malloc\<close>, the TCP stack) are
  parameters or environment records.
\<close>

section \<open>The programs\<close>

subsection \<open>C library: printf conversions, bytes, broken-down time\<close>

text \<open>Decimal digits of a number, most significant first.\<close>

definition digit_char :: "nat \<Rightarrow> char" where
  "digit_char d = ''0123456789'' ! d"

fun dec :: "nat \<Rightarrow> string" where
  "dec n = (if n < 10 then [digit_char n] else dec (n div 10) @ [digit_char (n mod 10)])"

declare dec.simps [simp del]

text \<open>
  \<^verbatim>\<open>%0<w>u\<close> and \<^verbatim>\<open>%0<w>d\<close>: zero padding up to the width \<open>w\<close>, the sign first;
  width 0 is the plain \<^verbatim>\<open>%d\<close>.
\<close>

definition fmt_u :: "nat \<Rightarrow> nat \<Rightarrow> string" where
  "fmt_u w n = replicate (w - length (dec n)) (CHR ''0'') @ dec n"

definition fmt_d :: "nat \<Rightarrow> int \<Rightarrow> string" where
  "fmt_d w i = (if i < 0 then CHR ''-'' # fmt_u (w - 1) (nat (- i)) else fmt_u w (nat i))"

text \<open>\<^verbatim>\<open>snprintf(buf, size, ...)\<close> keeps \<open>size - 1\<close> characters and the terminator.\<close>

definition snprintf :: "nat \<Rightarrow> string \<Rightarrow> string" where
  "snprintf n s = take (n - 1) s"

text \<open>The characters \<^verbatim>\<open>\n\<close>, \<^verbatim>\<open>\033\<close> and \<^verbatim>\<open>\0\<close>.\<close>

definition NL :: string where "NL = [CHR 0x0A]"
definition ESC :: char where "ESC = CHR 0x1B"
definition NUL :: char where "NUL = CHR 0x00"

text \<open>
  A received datagram is the bytes of its payload, held in one buffer; \<^verbatim>\<open>tot_len\<close> is
  their number. \<^verbatim>\<open>time_t\<close> and \<^verbatim>\<open>absolute_time_t\<close> (microseconds since boot) are 64
  bits wide on the target.
\<close>

type_synonym byte = "8 word"
type_synonym pbuf = "byte list"
type_synonym time_t = "64 word"
type_synonym absolute_time_t = "64 word"

definition tot_len :: "pbuf \<Rightarrow> nat" where
  "tot_len p = length p"

text \<open>\<^verbatim>\<open>struct tm\<close>, the fields the programs read.\<close>

record tm =
  tm_sec :: int
  tm_min :: int
  tm_hour :: int
  tm_mday :: int
  tm_mon :: int
  tm_year :: int
  tm_wday :: int

text \<open>
  A \<^verbatim>\<open>uint32_t\<close> field read from memory on the little-endian target, and the byte swap
  \<^verbatim>\<open>ntohl\<close> of the network stack.
\<close>

definition load_u32 :: "8 word list \<Rightarrow> nat \<Rightarrow> 32 word" where
  "load_u32 mem off = push_bit 24 (ucast (mem ! (off + 3))) OR push_bit 16 (ucast (mem ! (off + 2)))
                      OR push_bit 8 (ucast (mem ! (off + 1))) OR ucast (mem ! off)"

definition byte_of :: "32 word \<Rightarrow> nat \<Rightarrow> 8 word" where
  "byte_of x k = ucast (drop_bit (8 * k) x)"

definition ntohl :: "32 word \<Rightarrow> 32 word" where
  "ntohl x = push_bit 24 (ucast (byte_of x 0)) OR push_bit 16 (ucast (byte_of x 1))
             OR push_bit 8 (ucast (byte_of x 2)) OR ucast (byte_of x 3)"

text \<open>Four bytes read as a big-endian number.\<close>

definition be32 :: "byte \<Rightarrow> byte \<Rightarrow> byte \<Rightarrow> byte \<Rightarrow> nat" where
  "be32 b0 b1 b2 b3 = ((unat b0 * 256 + unat b1) * 256 + unat b2) * 256 + unat b3"

subsection \<open>ASCII clock: the calendar tick\<close>

text \<open>\<^verbatim>\<open>typedef struct { int year, month, day, dotw, hour, min, sec; } datetime_t;\<close>\<close>

record datetime_t =
  year :: int
  month :: int
  day :: int
  dotw :: int
  hour :: int
  min' :: int
  sec :: int

text \<open>
  The value an \<^verbatim>\<open>int\<close> holds after an increment: two's complement wrap-around at 32
  bits, as the target computes it (C++ leaves the overflow undefined).
\<close>

definition int32 :: "int \<Rightarrow> int" where
  "int32 v = (v + 2 ^ 31) mod 2 ^ 32 - 2 ^ 31"

definition INT_MAX :: int where "INT_MAX = 2 ^ 31 - 1"

text \<open>
  \<^verbatim>\<open>return (y % 4 == 0 && y % 100 != 0) || (y % 400 == 0);\<close>
\<close>

definition is_leap_year :: "int \<Rightarrow> bool" where
  "is_leap_year y = ((y smod 4 = 0 \<and> y smod 100 \<noteq> 0) \<or> y smod 400 = 0)"

text \<open>
  \<^verbatim>\<open>static const int d[] = {31,28,31,30,31,30,31,31,30,31,30,31};
  return (m == 2 && is_leap_year(y)) ? 29 : d[m - 1];\<close>
  For \<open>m\<close> outside 1..12 the C code reads outside the table; the properties below keep
  \<open>m\<close> inside.
\<close>

definition days_table :: "int list" where
  "days_table = [31, 28, 31, 30, 31, 30, 31, 31, 30, 31, 30, 31]"

definition days_in_month :: "int \<Rightarrow> int \<Rightarrow> int" where
  "days_in_month m y = (if m = 2 \<and> is_leap_year y then 29 else days_table ! nat (m - 1))"

text \<open>
  \<^verbatim>\<open>if (++current_time.sec < 60) return;  current_time.sec = 0;
  if (++current_time.min < 60) return;  current_time.min = 0;
  if (++current_time.hour < 24) return; current_time.hour = 0;
  current_time.day++;
  current_time.dotw = (current_time.dotw + 1) % 7;
  if (current_time.day > days_in_month(current_time.month, current_time.year)) {
      current_time.day = 1;
      if (++current_time.month > 12) { current_time.month = 1; current_time.year++; }
  }\<close>
\<close>

definition tick_time :: "datetime_t \<Rightarrow> datetime_t" where
  "tick_time current_time =
    (let ct = current_time\<lparr>sec := int32 (sec current_time + 1)\<rparr> in
     if sec ct < 60 then ct else
     let ct = ct\<lparr>sec := 0\<rparr>; ct = ct\<lparr>min' := int32 (min' ct + 1)\<rparr> in
     if min' ct < 60 then ct else
     let ct = ct\<lparr>min' := 0\<rparr>; ct = ct\<lparr>hour := int32 (hour ct + 1)\<rparr> in
     if hour ct < 24 then ct else
     let ct = ct\<lparr>hour := 0\<rparr>;
         ct = ct\<lparr>day := int32 (day ct + 1)\<rparr>;
         ct = ct\<lparr>dotw := int32 (dotw ct + 1) smod 7\<rparr> in
     if day ct > days_in_month (month ct) (year ct) then
       (let ct = ct\<lparr>day := 1\<rparr>; ct = ct\<lparr>month := int32 (month ct + 1)\<rparr> in
        if month ct > 12 then
          (let ct = ct\<lparr>month := 1\<rparr> in ct\<lparr>year := int32 (year ct + 1)\<rparr>)
        else ct)
     else ct)"

subsection \<open>ASCII clock: NTP reply, display, start-up\<close>

definition NTP_DELTA :: int where "NTP_DELTA = 2208988800"
definition UK_TIMEZONE_OFFSET :: int where "UK_TIMEZONE_OFFSET = 0"

text \<open>
  \<^verbatim>\<open>ntp_packet_t\<close>: four bytes, three 32-bit words and four timestamps of two 32-bit
  words each; \<^verbatim>\<open>tx_ts[0]\<close> follows the first three timestamps.
\<close>

definition sizeof_ntp_packet_t :: nat where
  "sizeof_ntp_packet_t = 4 + 3 * 4 + 4 * (2 * 4)"

definition offsetof_tx_ts :: nat where
  "offsetof_tx_ts = 4 + 3 * 4 + 3 * (2 * 4)"

record clock_state =
  current_time :: datetime_t
  time_synced :: bool

text \<open>\<^verbatim>\<open>current_time = {y,m,d,w,h,mi,s};\<close>\<close>

definition init_time :: "int \<Rightarrow> int \<Rightarrow> int \<Rightarrow> int \<Rightarrow> int \<Rightarrow> int \<Rightarrow> int \<Rightarrow> clock_state \<Rightarrow> clock_state" where
  "init_time y m d w h mi s st =
     st\<lparr>current_time := \<lparr>year = y, month = m, day = d, dotw = w, hour = h, min' = mi, sec = s\<rparr>\<rparr>"

text \<open>\<^verbatim>\<open>gmtime\<close> is the C library's; the model takes it as a parameter.\<close>

definition timestamp_to_datetime :: "(int \<Rightarrow> tm) \<Rightarrow> int \<Rightarrow> clock_state \<Rightarrow> clock_state" where
  "timestamp_to_datetime gmtime t st =
     (let tm = gmtime t in
      st\<lparr>current_time := \<lparr>year = tm_year tm + 1900, month = tm_mon tm + 1, day = tm_mday tm,
                            dotw = tm_wday tm, hour = tm_hour tm, min' = tm_min tm,
                            sec = tm_sec tm\<rparr>\<rparr>)"

text \<open>
  \<^verbatim>\<open>ntp_recv\<close>: the state after the call and the buffers handed to \<^verbatim>\<open>pbuf_free\<close>.
  \<^verbatim>\<open>sec1900 - NTP_DELTA\<close> is computed in 64 bits (the constant does not fit 32), so
  it cannot wrap.
\<close>

definition ntp_recv :: "(int \<Rightarrow> tm) \<Rightarrow> clock_state \<Rightarrow> pbuf \<Rightarrow> clock_state \<times> pbuf list" where
  "ntp_recv gmtime st p =
     (if tot_len p = sizeof_ntp_packet_t then
        (let sec1900 = ntohl (load_u32 p offsetof_tx_ts);
             unix_time = uint sec1900 - NTP_DELTA + UK_TIMEZONE_OFFSET
         in ((timestamp_to_datetime gmtime unix_time st)\<lparr>time_synced := True\<rparr>, [p]))
      else (st, [p]))"

text \<open>The tables \<^verbatim>\<open>DIGITS[10][5]\<close> and \<^verbatim>\<open>COLON[5]\<close>, and the left margin of \<^verbatim>\<open>pad()\<close>.\<close>

definition DIGITS :: "string list list" where
  "DIGITS = [
    ['' ### '', ''#   #'', ''#   #'', ''#   #'', '' ### ''],
    [''  #  '', '' ##  '', ''  #  '', ''  #  '', ''#####''],
    ['' ### '', ''#   #'', ''  ## '', '' #   '', ''#####''],
    ['' ### '', ''#   #'', ''  ## '', ''#   #'', '' ### ''],
    [''#   #'', ''#   #'', ''#####'', ''    #'', ''    #''],
    [''#####'', ''#    '', ''#### '', ''    #'', ''#### ''],
    ['' ### '', ''#    '', ''#### '', ''#   #'', '' ### ''],
    [''#####'', ''    #'', ''   # '', ''  #  '', '' #   ''],
    ['' ### '', ''#   #'', '' ### '', ''#   #'', '' ### ''],
    ['' ### '', ''#   #'', '' ####'', ''    #'', '' ### '']]"

definition COLON :: "string list" where
  "COLON = [''  '', '' #'', ''  '', '' #'', ''  '']"

definition CLOCK_PADDING :: nat where
  "CLOCK_PADDING = (80 - 43) div 2"

definition pad :: string where
  "pad = replicate CLOCK_PADDING (CHR '' '')"

definition digit_row :: "datetime_t \<Rightarrow> nat \<Rightarrow> string" where
  "digit_row t r =
     (let h1 = hour t sdiv 10; h2 = hour t smod 10;
          m1 = min' t sdiv 10; m2 = min' t smod 10;
          s1 = sec t sdiv 10; s2 = sec t smod 10
      in DIGITS ! nat h1 ! r @ '' '' @ DIGITS ! nat h2 ! r @ '' '' @ COLON ! r @ '' ''
         @ DIGITS ! nat m1 ! r @ '' '' @ DIGITS ! nat m2 ! r @ '' '' @ COLON ! r @ '' ''
         @ DIGITS ! nat s1 ! r @ '' '' @ DIGITS ! nat s2 ! r @ NL)"

text \<open>\<^verbatim>\<open>display_clock\<close>: what each output call prints, in order.\<close>

definition display_clock :: "clock_state \<Rightarrow> string list" where
  "display_clock st =
     (let t = current_time st in
      [ESC # ''[H'' @ NL, pad, ''Pico 2 W ASCII Clock'' @ NL @ NL]
      @ concat (map (\<lambda>r. [pad, digit_row t r]) [0..<5])
      @ [pad,
         NL @ fmt_d 4 (year t) @ ''-'' @ fmt_d 2 (month t) @ ''-'' @ fmt_d 2 (day t)
            @ ''  (Day '' @ fmt_d 0 (dotw t) @ '')'' @ NL,
         pad,
         (if time_synced st then ''Time source: NTP'' @ NL else ''Time source: MANUAL'' @ NL)])"

text \<open>
  The environment of \<^verbatim>\<open>main\<close>: what the WiFi driver and \<^verbatim>\<open>udp_new\<close> return, and
  the datagrams the stack hands to the receive callback during each sleep, counted from
  the registration of the callback.
\<close>

record net_env =
  cyw43_arch_init :: int
  wifi_connect :: int
  udp_new_ok :: bool
  arrivals :: "nat \<Rightarrow> pbuf list"

definition deliver :: "(int \<Rightarrow> tm) \<Rightarrow> clock_state \<Rightarrow> pbuf list \<Rightarrow> clock_state" where
  "deliver gmtime st ps = foldl (\<lambda>s p. fst (ntp_recv gmtime s p)) st ps"

text \<open>\<^verbatim>\<open>for (int i=0;i<50 && !time_synced;i++) sleep_ms(100);\<close>\<close>

function poll :: "(int \<Rightarrow> tm) \<Rightarrow> (nat \<Rightarrow> pbuf list) \<Rightarrow> nat \<Rightarrow> nat \<Rightarrow> clock_state
                   \<Rightarrow> clock_state \<times> nat" where
  "poll gmtime arr i k st =
     (if i < 50 \<and> \<not> time_synced st
      then poll gmtime arr (i + 1) (k + 1) (deliver gmtime st (arr k))
      else (st, k))"
  by pat_completeness auto
termination
  by (relation "measure (\<lambda>(g, arr, i, k, st). 50 - i)") auto

declare poll.simps [simp del]

text \<open>The globals \<^verbatim>\<open>current_time\<close> and \<^verbatim>\<open>time_synced\<close> start zeroed.\<close>

record boot =
  b_clock :: clock_state
  b_requests :: nat
  b_registered :: bool
  b_sleeps :: nat

definition clock0 :: clock_state where
  "clock0 = \<lparr>current_time = \<lparr>year = 0, month = 0, day = 0, dotw = 0, hour = 0, min' = 0, sec = 0\<rparr>,
             time_synced = False\<rparr>"

definition manual_time :: "clock_state \<Rightarrow> nat \<Rightarrow> bool \<Rightarrow> nat \<Rightarrow> boot" where
  "manual_time st requests registered k =
     \<lparr>b_clock = init_time 2026 2 1 6 10 48 0 st, b_requests = requests,
      b_registered = registered, b_sleeps = k\<rparr>"

text \<open>
  \<^verbatim>\<open>main\<close> up to the label \<^verbatim>\<open>start_clock\<close>:
  \<^verbatim>\<open>if (cyw43_arch_init()) goto manual_time;
  wifi_result = cyw43_arch_wifi_connect_timeout_ms(...);
  if (wifi_result != 0) goto manual_time;
  if (!ntp_init()) goto manual_time;     // udp_new, udp_recv(pcb, ntp_recv, ...)
  sleep_ms(2000);
  ntp_request();                         // the udp_sendto
  for (int i=0;i<50 && !time_synced;i++) sleep_ms(100);
  if (!time_synced) goto manual_time;
  goto start_clock;
  manual_time: init_time(2026,2,1,6,10,48,0);\<close>
  The result: the clock state at \<^verbatim>\<open>start_clock\<close>, the number of requests sent, whether
  the receive callback is registered, and the number of sleeps since its registration.
\<close>

definition main_start :: "(int \<Rightarrow> tm) \<Rightarrow> net_env \<Rightarrow> boot" where
  "main_start gmtime env =
     (if cyw43_arch_init env \<noteq> 0 then manual_time clock0 0 False 0
      else if wifi_connect env \<noteq> 0 then manual_time clock0 0 False 0
      else if \<not> udp_new_ok env then manual_time clock0 0 False 0
      else
        (let st1 = deliver gmtime clock0 (arrivals env 0);
             (st2, k) = poll gmtime (arrivals env) 0 1 st1
         in if \<not> time_synced st2 then manual_time st2 1 True k
            else \<lparr>b_clock = st2, b_requests = 1, b_registered = True, b_sleeps = k\<rparr>))"

text \<open>
  The first \<open>n\<close> rounds of \<^verbatim>\<open>while (true) { display_clock(); sleep_until(...);
  tick_time(); }\<close>: the outputs of the displays.
\<close>

fun clock_loop :: "(int \<Rightarrow> tm) \<Rightarrow> (nat \<Rightarrow> pbuf list) \<Rightarrow> bool \<Rightarrow> nat \<Rightarrow> nat \<Rightarrow> clock_state
                   \<Rightarrow> string list list" where
  "clock_loop gmtime arr registered 0 k st = []"
| "clock_loop gmtime arr registered (Suc n) k st =
     display_clock st #
     (let st1 = (if registered then deliver gmtime st (arr k) else st);
          st2 = st1\<lparr>current_time := tick_time (current_time st1)\<rparr>
      in clock_loop gmtime arr registered n (Suc k) st2)"

definition main_displays :: "(int \<Rightarrow> tm) \<Rightarrow> net_env \<Rightarrow> nat \<Rightarrow> string list list" where
  "main_displays gmtime env n =
     (let b = main_start gmtime env
      in clock_loop gmtime (arrivals env) (b_registered b) n (b_sleeps b) (b_clock b))"

text \<open>The clock state as the polling loop leaves it, when the socket was created.\<close>

definition polled :: "(int \<Rightarrow> tm) \<Rightarrow> net_env \<Rightarrow> clock_state" where
  "polled gmtime env = fst (poll gmtime (arrivals env) 0 1 (deliver gmtime clock0 (arrivals env 0)))"


text \<open>A fixed broken-down time, standing for the C library's \<^verbatim>\<open>gmtime\<close> in closed examples.\<close>

definition sample_gmtime :: "int \<Rightarrow> tm" where
  "sample_gmtime t = \<lparr>tm_sec = 0, tm_min = 0, tm_hour = 0, tm_mday = 1, tm_mon = 0,
                       tm_year = 70, tm_wday = 4\<rparr>"

text \<open>No socket: the WiFi chip did not start, the connection failed, or \<^verbatim>\<open>udp_new\<close> did.\<close>

definition no_ntp :: "net_env \<Rightarrow> bool" where
  "no_ntp env = (cyw43_arch_init env \<noteq> 0 \<or> wifi_connect env \<noteq> 0 \<or> \<not> udp_new_ok env)"

definition manual_datetime :: datetime_t where
  "manual_datetime = \<lparr>year = 2026, month = 2, day = 1, dotw = 6, hour = 10, min' = 48, sec = 0\<rparr>"

text \<open>Three environments for closed examples: a reply that comes after the polling has
  given up (during the first sleep of the clock loop), no reply at all, and a WiFi chip
  that does not start.\<close>

definition late_reply :: net_env where
  "late_reply = \<lparr>cyw43_arch_init = 0, wifi_connect = 0, udp_new_ok = True,
                  arrivals = (\<lambda>k. if k = 51 then [replicate 48 0] else [])\<rparr>"

definition no_reply :: net_env where
  "no_reply = \<lparr>cyw43_arch_init = 0, wifi_connect = 0, udp_new_ok = True,
                arrivals = (\<lambda>k. [])\<rparr>"

definition dead_wifi :: net_env where
  "dead_wifi = \<lparr>cyw43_arch_init = - 1, wifi_connect = 0, udp_new_ok = True,
                 arrivals = (\<lambda>k. [])\<rparr>"

subsection \<open>ASCII clock: the calendar as a linear count of seconds\<close>

text \<open>
  The reference the tick is compared with, written from the calendar's rules and not from
  the code: leap years, month lengths, the days before a year and before a month, and the
  seconds of a datetime counted from a fixed origin.
\<close>

definition leap :: "int \<Rightarrow> bool" where
  "leap y = ((4 dvd y \<and> \<not> 100 dvd y) \<or> 400 dvd y)"

definition month_length :: "int \<Rightarrow> int \<Rightarrow> int" where
  "month_length y m = (if m = 2 then (if leap y then 29 else 28)
                       else if m \<in> {4, 6, 9, 11} then 30 else 31)"

definition days_before_year :: "int \<Rightarrow> int" where
  "days_before_year y = 365 * y + (y - 1) div 4 - (y - 1) div 100 + (y - 1) div 400"

definition days_before_month :: "int \<Rightarrow> int \<Rightarrow> int" where
  "days_before_month y m = sum_list (map (month_length y) [1..m - 1])"

definition to_seconds :: "datetime_t \<Rightarrow> int" where
  "to_seconds d = (((days_before_year (year d) + days_before_month (year d) (month d)
                     + (day d - 1)) * 24 + hour d) * 60 + min' d) * 60 + sec d"

text \<open>
  Converting back. The year is found by stepping from an estimate to the year whose days
  contain the day number, the month by stepping through the months of that year; both
  searches end, by the measures given. The day of the week is not part of the count and
  is passed along.
\<close>

lemma div_step:
  fixes y k :: int
  assumes k: "0 < k"
  shows "y div k = (y - 1) div k + (if k dvd y then 1 else 0)"
proof -
  define r where "r = y mod k"
  define q where "q = y div k"
  have y: "y = q * k + r" by (simp add: q_def r_def)
  have r: "0 \<le> r" "r < k" using k by (simp_all add: r_def)
  show ?thesis
  proof (cases "r = 0")
    case True
    then have d: "k dvd y" by (simp add: r_def dvd_eq_mod_eq_0)
    have "y - 1 = (k - 1) + (q - 1) * k" using y True by (simp add: algebra_simps)
    then have "(y - 1) div k = (q - 1) + (k - 1) div k"
      using k by (simp only: div_mult_self1)
    also have "(k - 1) div k = 0" using k by (simp add: div_pos_pos_trivial)
    finally show ?thesis using d by (simp add: q_def)
  next
    case False
    then have d: "\<not> k dvd y" by (simp add: r_def dvd_eq_mod_eq_0)
    have "y - 1 = (r - 1) + q * k" using y by simp
    then have "(y - 1) div k = q + (r - 1) div k"
      using k by (simp only: div_mult_self1)
    also have "(r - 1) div k = 0" using r False by (simp add: div_pos_pos_trivial)
    finally show ?thesis using d by (simp add: q_def)
  qed
qed


lemma dvd_chain: "400 dvd (y::int) \<Longrightarrow> 100 dvd y" "100 dvd (y::int) \<Longrightarrow> 4 dvd y"
  by auto

lemma days_before_year_step:
  "days_before_year (y + 1) = days_before_year y + 365 + (if leap y then 1 else 0)"
  using div_step [of 4 y] div_step [of 100 y] div_step [of 400 y] dvd_chain [of y]
  by (auto simp: days_before_year_def leap_def)

function year_from :: "int \<Rightarrow> int \<Rightarrow> int" where
  "year_from y n = (if n < days_before_year y then year_from (y - 1) n
                    else if days_before_year (y + 1) \<le> n then year_from (y + 1) n
                    else y)"
  by pat_completeness auto
termination
proof (relation "measure (\<lambda>(y, n). nat (days_before_year y - n)
                                   + nat (n - days_before_year (y + 1) + 1))", goal_cases)
  case 1
  show ?case by simp
next
  case (2 y n)
  with days_before_year_step [of "y - 1"] days_before_year_step [of y]
  show ?case by (simp split: if_splits)
next
  case (3 y n)
  with days_before_year_step [of "y + 1"] days_before_year_step [of y]
  show ?case by (simp split: if_splits)
qed

declare year_from.simps [simp del]

function month_from :: "int \<Rightarrow> int \<Rightarrow> int \<Rightarrow> int \<times> int" where
  "month_from y m r = (if m < 12 \<and> month_length y m \<le> r
                       then month_from y (m + 1) (r - month_length y m) else (m, r))"
  by pat_completeness auto
termination
  by (relation "measure (\<lambda>(y, m, r). nat (12 - m))") auto

declare month_from.simps [simp del]

definition of_seconds :: "int \<Rightarrow> int \<Rightarrow> datetime_t" where
  "of_seconds w n =
     (let days = n div 86400; s = n mod 86400;
          y = year_from (days div 365) days;
          (m, r) = month_from y 1 (days - days_before_year y)
      in \<lparr>year = y, month = m, day = r + 1, dotw = w,
          hour = s div 3600, min' = s mod 3600 div 60, sec = s mod 60\<rparr>)"

text \<open>
  The datetimes the tick is specified for: every field in its calendar range, and the year
  a value of its type.
\<close>

definition valid_datetime :: "datetime_t \<Rightarrow> bool" where
  "valid_datetime d = (0 \<le> sec d \<and> sec d < 60 \<and> 0 \<le> min' d \<and> min' d < 60
     \<and> 0 \<le> hour d \<and> hour d < 24 \<and> 1 \<le> month d \<and> month d \<le> 12
     \<and> 1 \<le> day d \<and> day d \<le> days_in_month (month d) (year d)
     \<and> 0 \<le> dotw d \<and> dotw d < 7
     \<and> - (2 ^ 31) \<le> year d \<and> year d \<le> INT_MAX)"


text \<open>The last second of a day, and the last second of the last year an \<^verbatim>\<open>int\<close> holds.\<close>

definition day_rollover :: "datetime_t \<Rightarrow> bool" where
  "day_rollover d = (hour d = 23 \<and> min' d = 59 \<and> sec d = 59)"

definition last_second :: "datetime_t \<Rightarrow> bool" where
  "last_second d = (year d = INT_MAX \<and> month d = 12 \<and> day d = 31 \<and> day_rollover d)"

text \<open>Two datetimes for closed examples.\<close>

definition leap_eve :: datetime_t where
  "leap_eve = \<lparr>year = 2024, month = 2, day = 28, dotw = 3, hour = 23, min' = 59, sec = 59\<rparr>"

definition year_max_eve :: datetime_t where
  "year_max_eve = \<lparr>year = 2147483647, month = 12, day = 31, dotw = 0,
                    hour = 23, min' = 59, sec = 59\<rparr>"

subsection \<open>To-do list\<close>

text \<open>
  \<^verbatim>\<open>char t1[15], t2[15]; bool d1, d2; int cnt;\<close> A slot is its 15 bytes; the text in
  it is what \<^verbatim>\<open>%s\<close> prints, the bytes before the first NUL.
\<close>

record todo_state =
  t1 :: string
  t2 :: string
  d1 :: bool
  d2 :: bool
  cnt :: int


















subsection \<open>Web server\<close>

text \<open>The page served, byte for byte as the string literal of the source gives it.\<close>

definition html_content :: string where
  "html_content =
     ''<!DOCTYPE html>''
     @ ''<html><head><meta charset='UTF-8'><meta name='viewport' content='width=device-wi''
     @ ''dth,initial-scale=1'>''
     @ ''<title>Xyt564| Pico Server</title>''
     @ ''<style>''
     @ ''body{font-family:system-ui,sans-serif;max-width:800px;margin:40px auto;padding:2''
     @ ''0px;background:#0a0a0a;color:#e0e0e0;line-height:1.6}''
     @ ''h1{color:#60a5fa;border-bottom:2px solid #1e40af;padding-bottom:10px}''
     @ ''h2{color:#93c5fd;margin-top:30px}''
     @ ''.intro{background:#1a1a1a;padding:20px;border-radius:8px;border-left:4px solid #''
     @ ''60a5fa;margin:20px 0}''
     @ ''.skills{display:flex;flex-wrap:wrap;gap:8px;margin:15px 0}''
     @ ''.skill{background:#1e40af;color:#fff;padding:6px 12px;border-radius:4px;font-siz''
     @ ''e:14px}''
     @ ''.footer{margin-top:40px;padding-top:20px;border-top:1px solid #333;color:#888;te''
     @ ''xt-align:center;font-size:14px}''
     @ ''a{color:#60a5fa;text-decoration:none}''
     @ ''a:hover{text-decoration:underline}''
     @ ''.status{color:#4ade80;font-size:12px}''
     @ ''</style></head><body>''
     @ ''<div class='status'>''
     @ [CHR 0xF0, CHR 0x9F, CHR 0x9F, CHR 0xA2]
     @ '' Served from Raspberry Pi Pico 2 W</div>''
     @ ''<h1>Xyt564</h1>''
     @ ''<div class='intro'>''
     @ ''<strong>Self-Taught Developer & Tinkerer</strong><br>''
     @ ''19-year-old college student passionate about systems programming, embedded syste''
     @ ''ms, and cybersecurity. ''
     @ ''From building custom programming languages to running home servers on old laptop''
     @ ''s, I love turning curiosity into working code.''
     @ ''</div>''
     @ ''<h2>Featured Projects</h2>''
     @ ''<p><strong>Star Lang</strong> - Custom programming language with lexer, parser, ''
     @ ''and interpreter built from scratch in C++</p>''
     @ ''<p><strong>M5StickC Plus2 Firmware</strong> - Custom firmware for ESP32-based de''
     @ ''vice with WiFi, Bluetooth, and optimized power management</p>''
     @ ''<p><strong>Home Server</strong> - Repurposed laptop running Linux with file stor''
     @ ''age, media streaming, and self-hosted services</p>''
     @ ''<p><strong>Custom Game</strong> - Game built in C++ with SDL2, exploring game lo''
     @ ''ops, rendering, and physics from the ground up</p>''
     @ ''<h2>Tech Stack</h2>''
     @ ''<div class='skills'>''
     @ ''<span class='skill'>Python</span>''
     @ ''<span class='skill'>C/C++</span>''
     @ ''<span class='skill'>Rust</span>''
     @ ''<span class='skill'>TypeScript</span>''
     @ ''<span class='skill'>Assembly</span>''
     @ ''<span class='skill'>Embedded Systems</span>''
     @ ''<span class='skill'>Linux</span>''
     @ ''<span class='skill'>Security</span>''
     @ ''</div>''
     @ ''<h2>About</h2>''
     @ ''<p>2+ years of hands-on experience in systems programming, cybersecurity, and bu''
     @ ''ilding practical tools. ''
     @ ''I approach development with a security-first mindset and value understanding my ''
     @ ''stack end-to-end.</p>''
     @ ''<p><strong>GitHub:</strong> <a href='https://github.com/Xyt564' target='_blank'>''
     @ ''Xyt564</a></p>''
     @ ''<div class='footer'>''
     @ ''Optimized for microcontrollers | Built with Pico SDK | ''
     @ ''<a href='https://v0-xyt564.vercel.app/' target='_blank'>Full Portfolio</a>''
     @ ''</div>''
     @ ''</body></html>''"

definition HTTP_GET :: string where "HTTP_GET = ''GET''"

text \<open>
  \<^verbatim>\<open>HTTP_RESPONSE_HEADERS\<close> with its two \<^verbatim>\<open>%d\<close> filled in. \<^verbatim>\<open>strlen\<close> of a string
  of the model is its length: the model's strings are the characters before the terminator.
\<close>

definition HTTP_RESPONSE_HEADERS :: "int \<Rightarrow> int \<Rightarrow> string" where
  "HTTP_RESPONSE_HEADERS code len =
     ''HTTP/1.1 '' @ fmt_d 0 code @ '' OK'' @ NL
     @ ''Content-Length: '' @ fmt_d 0 len @ NL
     @ ''Content-Type: text/html; charset=utf-8'' @ NL
     @ ''Connection: close'' @ NL @ NL"

definition strlen :: "string \<Rightarrow> nat" where
  "strlen s = length s"

definition ERR_OK :: int where "ERR_OK = 0"
definition ERR_ABRT :: int where "ERR_ABRT = - 13"

text \<open>The calls into the TCP stack and the buffer pool, in the order they are made.\<close>

datatype tcp_call =
  TcpWrite string | TcpOutput | TcpRecved nat | PbufFree | ClearCallbacks | TcpClose | TcpAbort

text \<open>
  What the environment answers: whether \<^verbatim>\<open>malloc\<close> finds memory, and what
  \<^verbatim>\<open>tcp_write\<close> and \<^verbatim>\<open>tcp_close\<close> return.
\<close>

record http_env =
  malloc_ok :: bool
  tcp_write_result :: int
  tcp_close_result :: int

datatype fault = ReadPastPayload

text \<open>
  \<^verbatim>\<open>strncmp(s1, s2, n)\<close> on two memory areas of known extent: it stops at the first
  difference, at a terminator, or after \<open>n\<close> characters. Reading on after the last known
  byte of an area is a fault of the model: the C code reads whatever lies behind it.
\<close>

definition char_diff :: "char \<Rightarrow> char \<Rightarrow> int" where
  "char_diff a b = int (of_char a) - int (of_char b)"

fun strncmp :: "string \<Rightarrow> string \<Rightarrow> nat \<Rightarrow> fault + int" where
  "strncmp s1 s2 0 = Inr 0"
| "strncmp [] s2 (Suc n) = Inl ReadPastPayload"
| "strncmp (a # s1) [] (Suc n) = Inl ReadPastPayload"
| "strncmp (a # s1) (b # s2) (Suc n) =
     (if a \<noteq> b then Inr (char_diff a b)
      else if a = NUL then Inr 0
      else strncmp s1 s2 n)"

definition tcp_close_client_connection :: "http_env \<Rightarrow> int \<times> tcp_call list" where
  "tcp_close_client_connection env =
     (if tcp_close_result env \<noteq> ERR_OK then (ERR_ABRT, [ClearCallbacks, TcpClose, TcpAbort])
      else (ERR_OK, [ClearCallbacks, TcpClose]))"

text \<open>The body of \<^verbatim>\<open>if (strncmp(...) == 0)\<close>: build the response and hand it over.\<close>

definition send_page :: "http_env \<Rightarrow> tcp_call list" where
  "send_page env =
     (let content_len = strlen html_content;
          header_len = length (HTTP_RESPONSE_HEADERS 200 (int content_len));
          total_len = header_len + content_len
      in if malloc_ok env then
           (let response = snprintf (header_len + 1) (HTTP_RESPONSE_HEADERS 200 (int content_len))
                           @ html_content
            in TcpWrite (take total_len response)
               # (if tcp_write_result env = ERR_OK then [TcpOutput] else []))
         else [])"

text \<open>
  \<^verbatim>\<open>tcp_server_recv\<close>: \<open>None\<close> is the null \<^verbatim>\<open>pbuf\<close> of a closed connection; a
  segment is the bytes of its payload, \<^verbatim>\<open>tot_len\<close> their number.
\<close>

definition tcp_server_recv :: "http_env \<Rightarrow> string option \<Rightarrow> fault + (int \<times> tcp_call list)" where
  "tcp_server_recv env p =
     (case p of
        None \<Rightarrow> Inr (tcp_close_client_connection env)
      | Some payload \<Rightarrow>
          if length payload > 0 then
            (case strncmp (HTTP_GET @ [NUL]) payload (strlen HTTP_GET) of
               Inl f \<Rightarrow> Inl f
             | Inr r \<Rightarrow>
                 Inr (ERR_OK, (if r = 0 then send_page env else [])
                              @ [TcpRecved (length payload), PbufFree]))
          else Inr (ERR_OK, [PbufFree]))"

definition plenty :: http_env where
  "plenty = \<lparr>malloc_ok = True, tcp_write_result = 0, tcp_close_result = 0\<rparr>"

definition out_of_memory :: http_env where
  "out_of_memory = \<lparr>malloc_ok = False, tcp_write_result = 0, tcp_close_result = 0\<rparr>"

subsection \<open>Shell OS: clock, log, NTP reply, filesystem start\<close>

definition ANSI_RESET :: string where "ANSI_RESET = ESC # ''[0m''"
definition ANSI_BOLD :: string where "ANSI_BOLD = ESC # ''[1m''"
definition ANSI_RED :: string where "ANSI_RED = ESC # ''[31m''"
definition ANSI_GREEN :: string where "ANSI_GREEN = ESC # ''[32m''"
definition ANSI_YELLOW :: string where "ANSI_YELLOW = ESC # ''[33m''"
definition ANSI_BLUE :: string where "ANSI_BLUE = ESC # ''[34m''"
definition ANSI_CYAN :: string where "ANSI_CYAN = ESC # ''[36m''"

definition MAX_LOG_ENTRIES :: int where "MAX_LOG_ENTRIES = 50"

text \<open>
  The globals the functions below read and write: \<^verbatim>\<open>system_time_offset\<close>,
  \<^verbatim>\<open>time_sync_base\<close>, \<^verbatim>\<open>ntp_synced\<close>, \<^verbatim>\<open>timezone_offset\<close>, \<^verbatim>\<open>timezone_str\<close>,
  and the log: \<^verbatim>\<open>char log_entries[50][128]; int log_index, log_count;\<close>
\<close>

record os_state =
  system_time_offset :: time_t
  time_sync_base :: absolute_time_t
  ntp_synced :: bool
  timezone_offset :: "32 word"
  timezone_str :: string
  log_entries :: "string list"
  log_index :: int
  log_count :: int

definition boot_state :: os_state where
  "boot_state = \<lparr>system_time_offset = 0, time_sync_base = 0, ntp_synced = False,
     timezone_offset = 0, timezone_str = ''GMT'',
     log_entries = replicate (nat MAX_LOG_ENTRIES) [], log_index = 0, log_count = 0\<rparr>"

text \<open>
  \<^verbatim>\<open>if (system_time_offset == 0) return 0;
  uint64_t elapsed_ms = absolute_time_diff_us(time_sync_base, get_absolute_time()) / 1000;
  return system_time_offset + (elapsed_ms / 1000);\<close>
  The clock reading \<^verbatim>\<open>get_absolute_time()\<close> is an argument. The first division is
  signed (the difference is an \<^verbatim>\<open>int64_t\<close>), the second unsigned.
\<close>

definition absolute_time_diff_us :: "absolute_time_t \<Rightarrow> absolute_time_t \<Rightarrow> 64 word" where
  "absolute_time_diff_us from to = to - from"

definition sdiv64 :: "64 word \<Rightarrow> int \<Rightarrow> 64 word" where
  "sdiv64 a b = word_of_int (sint a sdiv b)"

definition get_current_time :: "os_state \<Rightarrow> absolute_time_t \<Rightarrow> time_t" where
  "get_current_time st now =
     (if system_time_offset st = 0 then 0
      else let elapsed_ms = sdiv64 (absolute_time_diff_us (time_sync_base st) now) 1000
           in system_time_offset st + elapsed_ms div 1000)"

text \<open>
  \<^verbatim>\<open>system_time_offset = new_time; time_sync_base = get_absolute_time();
  ntp_synced = true;\<close>
\<close>

definition set_current_time :: "time_t \<Rightarrow> absolute_time_t \<Rightarrow> os_state \<Rightarrow> os_state" where
  "set_current_time new_time now st =
     st\<lparr>system_time_offset := new_time, time_sync_base := now, ntp_synced := True\<rparr>"

text \<open>\<^verbatim>\<open>to_ms_since_boot\<close> returns a \<^verbatim>\<open>uint32_t\<close>.\<close>

definition to_ms_since_boot :: "absolute_time_t \<Rightarrow> 32 word" where
  "to_ms_since_boot t = ucast (t div 1000)"

text \<open>
  \<^verbatim>\<open>log_message\<close>: the entry written by \<^verbatim>\<open>snprintf\<close> into the slot
  \<^verbatim>\<open>log_entries[log_index]\<close>, with the uptime \<^verbatim>\<open>"[+%05lus] %s"\<close> when
  \<^verbatim>\<open>get_current_time()\<close> is 0 and with \<^verbatim>\<open>"[%02d:%02d:%02d] %s"\<close> otherwise; then
  \<^verbatim>\<open>log_index = (log_index + 1) % MAX_LOG_ENTRIES;
  if (log_count < MAX_LOG_ENTRIES) log_count++;\<close>
\<close>

definition log_line :: "(time_t \<Rightarrow> tm) \<Rightarrow> os_state \<Rightarrow> absolute_time_t \<Rightarrow> string \<Rightarrow> string" where
  "log_line localtime st clock msg =
     (let now = get_current_time st clock in
      if now = 0 then
        (let uptime_sec = to_ms_since_boot clock div 1000
         in snprintf 128 (''[+'' @ fmt_u 5 (unat uptime_sec) @ ''s] '' @ msg))
      else
        (let t = localtime now
         in snprintf 128 (''['' @ fmt_d 2 (tm_hour t) @ '':'' @ fmt_d 2 (tm_min t) @ '':''
                           @ fmt_d 2 (tm_sec t) @ ''] '' @ msg)))"

definition log_message :: "(time_t \<Rightarrow> tm) \<Rightarrow> absolute_time_t \<Rightarrow> os_state \<Rightarrow> string \<Rightarrow> os_state" where
  "log_message localtime clock st msg =
     (let st1 = st\<lparr>log_entries := (log_entries st)[nat (log_index st) := log_line localtime st clock msg]\<rparr>;
          st2 = st1\<lparr>log_index := (log_index st1 + 1) smod MAX_LOG_ENTRIES\<rparr>
      in if log_count st2 < MAX_LOG_ENTRIES then st2\<lparr>log_count := log_count st2 + 1\<rparr> else st2)"

text \<open>
  \<^verbatim>\<open>view_log\<close>, the lines printed between the banner and the closing empty line:
  \<^verbatim>\<open>if (log_count == 0) printf("No log entries yet\n");
  else { int start = (log_index - log_count + MAX_LOG_ENTRIES) % MAX_LOG_ENTRIES;
         for (int i = 0; i < log_count; i++) {
             int idx = (start + i) % MAX_LOG_ENTRIES;
             printf("%s\n", log_entries[idx]); } }\<close>
\<close>

definition view_log :: "os_state \<Rightarrow> string list" where
  "view_log st =
     (if log_count st = 0 then [''No log entries yet'' @ [CHR 0x0A]]
      else
        (let start = (log_index st - log_count st + MAX_LOG_ENTRIES) smod MAX_LOG_ENTRIES
         in map (\<lambda>i. log_entries st ! nat ((start + int i) smod MAX_LOG_ENTRIES) @ [CHR 0x0A])
              [0..<nat (log_count st)]))"

text \<open>
  \<^verbatim>\<open>show_time\<close> (the \<^verbatim>\<open>time\<close> command) and \<^verbatim>\<open>print_prompt\<close>: both branch on
  \<^verbatim>\<open>now == 0\<close>, where \<^verbatim>\<open>now = get_current_time()\<close>.
\<close>

definition show_time :: "(time_t \<Rightarrow> tm) \<Rightarrow> os_state \<Rightarrow> absolute_time_t \<Rightarrow> string list" where
  "show_time localtime st clock =
     (let now = get_current_time st clock in
      if now = 0 then
        [ANSI_YELLOW @ ''Time not synchronized yet'' @ [CHR 0x0A] @ ANSI_RESET,
         ''Use 'wifi' to connect and sync time'' @ [CHR 0x0A]]
      else
        (let t = localtime now in
         [[CHR 0x0A] @ ANSI_BOLD @ ''Current Time:'' @ [CHR 0x0A] @ ANSI_RESET,
          ''  '' @ fmt_d 4 (tm_year t + 1900) @ ''-'' @ fmt_d 2 (tm_mon t + 1) @ ''-''
            @ fmt_d 2 (tm_mday t) @ '' '' @ fmt_d 2 (tm_hour t) @ '':'' @ fmt_d 2 (tm_min t)
            @ '':'' @ fmt_d 2 (tm_sec t) @ '' '' @ timezone_str st @ [CHR 0x0A, CHR 0x0A]]))"

definition prompt_tail :: string where
  "prompt_tail = ANSI_RESET @ '' '' @ ANSI_BOLD @ ANSI_BLUE @ ''pico@os'' @ ANSI_RESET @ '':''
                 @ ANSI_CYAN @ ''~'' @ ANSI_RESET @ ''$ ''"

definition print_prompt :: "(time_t \<Rightarrow> tm) \<Rightarrow> os_state \<Rightarrow> absolute_time_t \<Rightarrow> string" where
  "print_prompt localtime st clock =
     (let now = get_current_time st clock in
      if now = 0 then
        (let uptime_sec = to_ms_since_boot clock div 1000
         in ANSI_GREEN @ ''+'' @ fmt_u 5 (unat uptime_sec) @ ''s'' @ prompt_tail)
      else
        (let t = localtime now
         in ANSI_GREEN @ fmt_d 2 (tm_hour t) @ '':'' @ fmt_d 2 (tm_min t) @ '':''
            @ fmt_d 2 (tm_sec t) @ prompt_tail))"

text \<open>
  \<^verbatim>\<open>ntp_recv_callback\<close>, the same in both shell variants:
  \<^verbatim>\<open>if (p->tot_len >= 48) {
      uint8_t *data = (uint8_t*)p->payload;
      uint32_t ntp_time = (data[40] << 24) | (data[41] << 16) | (data[42] << 8) | data[43];
      time_t unix_time = ntp_time - 2208988800UL + (timezone_offset * 3600);
      set_current_time(unix_time);
      log_message("NTP time synchronized");
      printf(ANSI_GREEN "Time synchronized successfully!\n" ANSI_RESET);
  }
  pbuf_free(p);\<close>
  \<^verbatim>\<open>unsigned long\<close> has 32 bits on the target, so the sum is taken modulo \<open>2 ^ 32\<close>
  before it widens to \<^verbatim>\<open>time_t\<close>.
\<close>

definition ntp_time_of :: "pbuf \<Rightarrow> 32 word" where
  "ntp_time_of data = push_bit 24 (ucast (data ! 40)) OR push_bit 16 (ucast (data ! 41))
                      OR push_bit 8 (ucast (data ! 42)) OR ucast (data ! 43)"

definition ntp_unix_time :: "32 word \<Rightarrow> 32 word \<Rightarrow> time_t" where
  "ntp_unix_time ntp_time tz = ucast (ntp_time - 2208988800 + tz * 3600)"

record recv_result =
  rr_state :: os_state
  rr_stdout :: "string list"
  rr_freed :: "pbuf list"

definition ntp_recv_callback ::
  "(time_t \<Rightarrow> tm) \<Rightarrow> absolute_time_t \<Rightarrow> os_state \<Rightarrow> pbuf \<Rightarrow> recv_result" where
  "ntp_recv_callback localtime clock st p =
     (if tot_len p \<ge> 48 then
        (let unix_time = ntp_unix_time (ntp_time_of p) (timezone_offset st);
             st1 = set_current_time unix_time clock st;
             st2 = log_message localtime clock st1 ''NTP time synchronized''
         in \<lparr>rr_state = st2,
             rr_stdout = [ANSI_GREEN @ ''Time synchronized successfully!'' @ [CHR 0x0A] @ ANSI_RESET],
             rr_freed = [p]\<rparr>)
      else \<lparr>rr_state = st, rr_stdout = [], rr_freed = [p]\<rparr>)"

text \<open>
  \<^verbatim>\<open>init_filesystem\<close>, the same in both shell variants, after the configuration is
  filled in:
  \<^verbatim>\<open>int err = lfs_mount(&lfs, &lfs_cfg);
  if (err) {
      printf("Formatting filesystem...\r\n");
      err = lfs_format(&lfs, &lfs_cfg);
      if (err) { printf("ERROR: Failed to format ..."); log_message("ERROR: Filesystem format failed"); return; }
      err = lfs_mount(&lfs, &lfs_cfg);
      if (err) { printf("ERROR: Failed to mount ..."); log_message("ERROR: Filesystem mount failed"); return; }
  }
  log_message("Filesystem mounted successfully");\<close>
  LittleFS is the environment: \<open>lfs h\<close> is the return code of the last call of the
  history \<open>h\<close> of calls made so far. The result records the calls made, in order.
\<close>

datatype lfs_call = Mount | Format

record fs_result =
  fs_state :: os_state
  fs_calls :: "lfs_call list"
  fs_stdout :: "string list"

definition CRLF :: string where "CRLF = [CHR 0x0D, CHR 0x0A]"

definition init_filesystem ::
  "(lfs_call list \<Rightarrow> int) \<Rightarrow> (time_t \<Rightarrow> tm) \<Rightarrow> absolute_time_t \<Rightarrow> os_state \<Rightarrow> fs_result" where
  "init_filesystem lfs localtime clock st =
     (let err = lfs [Mount] in
      if err \<noteq> 0 then
        (let out1 = [''Formatting filesystem...'' @ CRLF];
             err = lfs [Mount, Format] in
         if err \<noteq> 0 then
           \<lparr>fs_state = log_message localtime clock st ''ERROR: Filesystem format failed'',
            fs_calls = [Mount, Format],
            fs_stdout = out1 @ [''ERROR: Failed to format filesystem (code '' @ fmt_d 0 err @ '')'' @ CRLF]\<rparr>
         else
           (let err = lfs [Mount, Format, Mount] in
            if err \<noteq> 0 then
              \<lparr>fs_state = log_message localtime clock st ''ERROR: Filesystem mount failed'',
               fs_calls = [Mount, Format, Mount],
               fs_stdout = out1 @ [''ERROR: Failed to mount filesystem after format (code ''
                                   @ fmt_d 0 err @ '')'' @ CRLF]\<rparr>
            else
              \<lparr>fs_state = log_message localtime clock st ''Filesystem mounted successfully'',
               fs_calls = [Mount, Format, Mount], fs_stdout = out1\<rparr>))
      else
        \<lparr>fs_state = log_message localtime clock st ''Filesystem mounted successfully'',
         fs_calls = [Mount], fs_stdout = []\<rparr>)"


text \<open>
  A series of \<^verbatim>\<open>log_message\<close> calls (the clock reading and the message of each), the
  entries they write, in the order of the calls, and the log as it is before the first
  call.
\<close>

definition run_log ::
  "(time_t \<Rightarrow> tm) \<Rightarrow> os_state \<Rightarrow> (absolute_time_t \<times> string) list \<Rightarrow> os_state" where
  "run_log localtime st calls = foldl (\<lambda>s (clock, msg). log_message localtime clock s msg) st calls"

definition log_history ::
  "(time_t \<Rightarrow> tm) \<Rightarrow> os_state \<Rightarrow> (absolute_time_t \<times> string) list \<Rightarrow> string list" where
  "log_history localtime st calls = map (\<lambda>(clock, msg). log_line localtime st clock msg) calls"

definition log_empty :: "os_state \<Rightarrow> bool" where
  "log_empty st = (log_index st = 0 \<and> log_count st = 0
                   \<and> length (log_entries st) = nat MAX_LOG_ENTRIES)"

text \<open>A fixed broken-down time, standing for the C library's \<^verbatim>\<open>localtime\<close> in closed examples.\<close>

definition sample_localtime :: "time_t \<Rightarrow> tm" where
  "sample_localtime t = \<lparr>tm_sec = 0, tm_min = 0, tm_hour = 0, tm_mday = 1, tm_mon = 0,
                           tm_year = 70, tm_wday = 4\<rparr>"

text \<open>A series of \<^verbatim>\<open>set_current_time\<close> calls: the value and the clock reading of each.\<close>

definition set_times :: "(time_t \<times> absolute_time_t) list \<Rightarrow> os_state \<Rightarrow> os_state" where
  "set_times calls st = foldl (\<lambda>s (v, t). set_current_time v t s) st calls"

text \<open>What the prompt, a log line and the time command show while no time is set.\<close>

definition uptime_prompt :: "absolute_time_t \<Rightarrow> string" where
  "uptime_prompt clock =
     ANSI_GREEN @ ''+'' @ fmt_u 5 (unat (to_ms_since_boot clock div 1000)) @ ''s'' @ prompt_tail"

definition uptime_log_line :: "absolute_time_t \<Rightarrow> string \<Rightarrow> string" where
  "uptime_log_line clock msg =
     snprintf 128 (''[+'' @ fmt_u 5 (unat (to_ms_since_boot clock div 1000)) @ ''s] '' @ msg)"

definition not_synced_notice :: "string list" where
  "not_synced_notice =
     [ANSI_YELLOW @ ''Time not synchronized yet'' @ [CHR 0x0A] @ ANSI_RESET,
      ''Use 'wifi' to connect and sync time'' @ [CHR 0x0A]]"

text \<open>A filesystem whose first mount fails with \<^verbatim>\<open>LFS_ERR_CORRUPT\<close>, every later call succeeding.\<close>

definition blank_flash :: "lfs_call list \<Rightarrow> int" where
  "blank_flash history = (if history = [Mount] then - 84 else 0)"

subsection \<open>Shell OS: Tetris\<close>

definition TETRIS_WIDTH :: nat where "TETRIS_WIDTH = 10"
definition TETRIS_HEIGHT :: nat where "TETRIS_HEIGHT = 20"

text \<open>\<^verbatim>\<open>int board[TETRIS_HEIGHT][TETRIS_WIDTH]\<close>: 20 rows of 10 cells, row 0 on top.\<close>

type_synonym board = "int list list"

definition board_ok :: "board \<Rightarrow> bool" where
  "board_ok b = (length b = TETRIS_HEIGHT \<and> list_all (\<lambda>r. length r = TETRIS_WIDTH) b)"

text \<open>
  \<^verbatim>\<open>bool full = true;
  for (int j = 0; j < TETRIS_WIDTH; j++) if (board[i][j] == 0) { full = false; break; }\<close>
\<close>

definition row_full :: "int list \<Rightarrow> bool" where
  "row_full row = list_all (\<lambda>j. row ! j \<noteq> 0) [0..<TETRIS_WIDTH]"

definition zero_row :: "int list" where
  "zero_row = replicate TETRIS_WIDTH 0"

text \<open>
  \<^verbatim>\<open>for (int k = i; k > 0; k--) memcpy(board[k], board[k-1], sizeof(board[0]));\<close>
\<close>

fun shift_rows :: "board \<Rightarrow> nat \<Rightarrow> board" where
  "shift_rows board 0 = board"
| "shift_rows board (Suc k) = shift_rows (board[Suc k := board ! k]) k"

text \<open>The number of full rows, the terminating measure of the loop and the count returned.\<close>

definition count_full :: "board \<Rightarrow> nat" where
  "count_full b = length (filter row_full b)"

lemma zero_row_not_full: "\<not> row_full zero_row"
  by (simp add: row_full_def zero_row_def TETRIS_WIDTH_def upt_rec)

lemma shift_rows_length: "length (shift_rows b k) = length b"
  by (induction k arbitrary: b) simp_all

lemma shift_rows_eq:
  "i < length b \<Longrightarrow> (shift_rows b i)[0 := z] = z # take i b @ drop (Suc i) b"
proof (induction i arbitrary: b)
  case 0
  then show ?case by (cases b) simp_all
next
  case (Suc k)
  let ?b = "b[Suc k := b ! k]"
  from Suc.prems have k: "k < length ?b" by simp
  have "(shift_rows ?b k)[0 := z] = z # take k ?b @ drop (Suc k) ?b"
    by (rule Suc.IH [OF k])
  also have "take k ?b = take k b" by simp
  also have "drop (Suc k) ?b = b ! k # drop (Suc (Suc k)) b"
    using Suc.prems by (simp add: drop_update_cancel Cons_nth_drop_Suc [symmetric])
  finally show ?case
    using Suc.prems by (simp add: take_Suc_conv_app_nth)
qed

text \<open>
  \<^verbatim>\<open>int lines_cleared = 0;
  for (int i = TETRIS_HEIGHT - 1; i >= 0; i--) {
      ... full ...
      if (full) {
          lines_cleared++;
          for (int k = i; k > 0; k--) memcpy(board[k], board[k-1], sizeof(board[0]));
          memset(board[0], 0, sizeof(board[0]));
          i++; // Check this line again
      }
  }
  return lines_cleared;\<close>
  The loop does not count down in every round. It ends because a cleared row is replaced
  by a row of zeros, which is not full: the number of full rows, then \<open>i\<close>, decreases.
  An index outside the board is \<open>None\<close>.
\<close>

function clear_lines_loop :: "board \<Rightarrow> int \<Rightarrow> int \<Rightarrow> (board \<times> int) option" where
  "clear_lines_loop board i lines_cleared =
     (if i \<ge> 0 then
        (if nat i < length board then
           (if row_full (board ! nat i)
            then clear_lines_loop ((shift_rows board (nat i))[0 := zero_row])
                   (i + 1 - 1) (lines_cleared + 1)
            else clear_lines_loop board (i - 1) lines_cleared)
         else None)
      else Some (board, lines_cleared))"
  by pat_completeness auto
termination
proof (relation "measures [\<lambda>(b, i, l). count_full b, \<lambda>(b, i, l). nat (i + 1)]", goal_cases)
  case 1
  show ?case by simp
next
  case (2 board i l)
  then have i: "nat i < length board" and f: "row_full (board ! nat i)" by simp_all
  have "count_full ((shift_rows board (nat i))[0 := zero_row])
        = count_full (take (nat i) board @ drop (Suc (nat i)) board)"
    by (simp add: shift_rows_eq [OF i] count_full_def zero_row_not_full)
  moreover have "count_full board
        = Suc (count_full (take (nat i) board @ drop (Suc (nat i)) board))"
  proof -
    have "board = take (nat i) board @ board ! nat i # drop (Suc (nat i)) board"
      using i by (simp add: id_take_nth_drop [symmetric])
    then have "count_full board
        = count_full (take (nat i) board @ board ! nat i # drop (Suc (nat i)) board)"
      by simp
    then show ?thesis using f by (simp add: count_full_def)
  qed
  ultimately show ?case by simp
next
  case (3 board i l)
  then show ?case by simp
qed

definition clear_lines :: "board \<Rightarrow> (board \<times> int) option" where
  "clear_lines board = clear_lines_loop board (int TETRIS_HEIGHT - 1) 0"


text \<open>The number of non-zero cells of a board.\<close>

definition occupied :: "board \<Rightarrow> nat" where
  "occupied b = sum_list (map (\<lambda>r. length (filter (\<lambda>c. c \<noteq> 0) r)) b)"

text \<open>
  \<^verbatim>\<open>struct TetrisPiece { int shape[4][4]; int x, y; int type; };\<close>
  The shape is a list of four rows of four cells.
\<close>

record TetrisPiece =
  shape :: "int list list"
  x :: int
  y :: int
  type :: int

definition shape_ok :: "int list list \<Rightarrow> bool" where
  "shape_ok s = (length s = 4 \<and> list_all (\<lambda>r. length r = 4) s)"

text \<open>
  \<^verbatim>\<open>for i < 4: for j < 4: temp[i][j] = piece->shape[3-j][i];
  memcpy(piece->shape, temp, sizeof(temp));\<close>
\<close>

definition rotate_shape :: "int list list \<Rightarrow> int list list" where
  "rotate_shape s = map (\<lambda>i. map (\<lambda>j. s ! (3 - j) ! i) [0..<4]) [0..<4]"

definition rotate_piece :: "TetrisPiece \<Rightarrow> TetrisPiece" where
  "rotate_piece piece = piece\<lparr>shape := rotate_shape (shape piece)\<rparr>"

section \<open>Properties\<close>

subsection \<open>Bytes, words and C arithmetic\<close>

lemma smod_nonneg: "0 \<le> a \<Longrightarrow> 0 < b \<Longrightarrow> (a::int) smod b = a mod b"
  by (simp add: smod_int_alt_def sgn_if)

lemma unat_ucast_byte: "unat (ucast (b :: 8 word) :: 32 word) = unat b"
proof -
  have "unat b < 2 ^ 8" using unsigned_less [of b, where ?'a = nat] by simp
  then have "unat b < 2 ^ 32" by simp
  then show ?thesis
    by (simp add: unsigned_ucast_eq take_bit_nat_eq_self_iff)
qed

lemma cat_step:
  fixes a :: "32 word" and b :: "8 word"
  assumes "unat a < 2 ^ 24"
  shows "unat (push_bit 8 a OR ucast b) = unat a * 256 + unat b"
proof -
  have d: "push_bit 8 a OR ucast b = push_bit 8 a + ucast b"
    by (rule disjunctive_add [symmetric]) (auto simp: bit_simps dest: bit_imp_le_length)
  have b: "unat b < 256" using unsigned_less [of b, where ?'a = nat] by simp
  have "unat (push_bit 8 a) = unat a * 256"
    using assms by (simp add: push_bit_eq_mult unat_word_ariths)
  with b assms show ?thesis
    unfolding d by (simp add: unat_word_ariths unat_ucast_byte)
qed

lemma or_regroup: "(push_bit 24 (ucast (b0::8 word)) OR push_bit 16 (ucast (b1::8 word)) OR push_bit 8 (ucast (b2 :: 8 word)) OR ucast (b3 :: 8 word) :: 32 word)
  = push_bit 8 (push_bit 8 (push_bit 8 (ucast b0) OR ucast b1) OR ucast b2) OR ucast b3"
  by (simp add: or.assoc)

lemma unat_be32:
  "unat (push_bit 24 (ucast (b0::8 word)) OR push_bit 16 (ucast (b1::8 word)) OR push_bit 8 (ucast (b2 :: 8 word)) OR ucast (b3 :: 8 word) :: 32 word) = be32 b0 b1 b2 b3"
proof -
  have b0: "unat b0 < 256" using unsigned_less [of b0, where ?'a = nat] by simp
  have b1: "unat b1 < 256" using unsigned_less [of b1, where ?'a = nat] by simp
  have b2: "unat b2 < 256" using unsigned_less [of b2, where ?'a = nat] by simp
  define a0 :: "32 word" where "a0 = ucast b0"
  define a1 :: "32 word" where "a1 = push_bit 8 a0 OR ucast b1"
  define a2 :: "32 word" where "a2 = push_bit 8 a1 OR ucast b2"
  have u0: "unat a0 = unat b0"
    by (simp add: a0_def unat_ucast_byte)
  have u1: "unat a1 = unat b0 * 256 + unat b1"
    unfolding a1_def using b0 by (subst cat_step) (simp_all add: u0)
  have u2: "unat a2 = (unat b0 * 256 + unat b1) * 256 + unat b2"
    unfolding a2_def using b0 b1 by (subst cat_step) (simp_all add: u1)
  have "unat (push_bit 8 a2 OR ucast b3) = unat a2 * 256 + unat b3"
    using b0 b1 b2 by (intro cat_step) (simp add: u2)
  then have "unat (push_bit 8 a2 OR ucast b3) = be32 b0 b1 b2 b3"
    by (simp add: u2 be32_def)
  then show ?thesis
    unfolding or_regroup a2_def a1_def a0_def .
qed
lemma byte_of_cat:
  fixes b0 b1 b2 b3 :: "8 word"
  defines "w \<equiv> push_bit 24 (ucast b3) OR push_bit 16 (ucast b2) OR push_bit 8 (ucast b1) OR ucast b0 :: 32 word"
  shows "byte_of w 0 = b0" "byte_of w 1 = b1" "byte_of w 2 = b2" "byte_of w 3 = b3"
  unfolding byte_of_def w_def
  by (rule bit_word_eqI; simp add: bit_simps; force dest: bit_imp_le_length)+

lemma ntohl_load_u32:
  "ntohl (load_u32 mem off) = push_bit 24 (ucast (mem ! off)) OR push_bit 16 (ucast (mem ! (off + 1)))
                      OR push_bit 8 (ucast (mem ! (off + 2))) OR ucast (mem ! (off + 3))"
  by (simp only: ntohl_def load_u32_def byte_of_cat)

subsection \<open>Shell OS: fields the log leaves alone\<close>

lemma log_message_time [simp]:
  "system_time_offset (log_message lt c st m) = system_time_offset st"
  "time_sync_base (log_message lt c st m) = time_sync_base st"
  by (simp_all add: log_message_def Let_def)


lemma log_message_clock_fields [simp]:
  "ntp_synced (log_message lt c st m) = ntp_synced st"
  "timezone_offset (log_message lt c st m) = timezone_offset st"
  "timezone_str (log_message lt c st m) = timezone_str st"
  by (simp_all add: log_message_def Let_def)

subsection \<open>ASCII clock: one tick is one second\<close>

lemma smod_eq_0_iff: "0 < k \<Longrightarrow> ((yr::int) smod k = 0) = (k dvd yr)"
  by (auto simp: smod_int_alt_def mod_eq_0_iff_dvd sgn_eq_0_iff)

lemma is_leap_year_leap: "is_leap_year yr = leap yr"
  by (simp add: is_leap_year_def leap_def smod_eq_0_iff)

lemma month_cases:
  assumes "1 \<le> (m::int)" "m \<le> 12"
  obtains "m = 1" | "m = 2" | "m = 3" | "m = 4" | "m = 5" | "m = 6"
        | "m = 7" | "m = 8" | "m = 9" | "m = 10" | "m = 11" | "m = 12"
proof -
  from assms have "m = 1 \<or> m = 2 \<or> m = 3 \<or> m = 4 \<or> m = 5 \<or> m = 6
      \<or> m = 7 \<or> m = 8 \<or> m = 9 \<or> m = 10 \<or> m = 11 \<or> m = 12"
    by arith
  then show thesis using that by blast
qed

lemma days_in_month_length:
  assumes "1 \<le> m" "m \<le> 12"
  shows "days_in_month m yr = month_length yr m"
  using assms
  by (cases m rule: month_cases)
     (simp_all add: days_in_month_def month_length_def is_leap_year_leap days_table_def)

lemma days_before_month_step:
  "1 \<le> m \<Longrightarrow> days_before_month yr (m + 1) = days_before_month yr m + month_length yr m"
  by (simp add: days_before_month_def upto_rec2)

lemma days_before_month_1: "days_before_month yr 1 = 0"
  by (simp add: days_before_month_def)

lemma days_before_month_12:
  "days_before_month yr 12 + 31 = 365 + (if leap yr then 1 else 0)"
  by (simp add: days_before_month_def upto_rec1 month_length_def)

lemma month_length_pos: "28 \<le> month_length yr m" "month_length yr m \<le> 31"
  by (simp_all add: month_length_def)

lemma days_before_month_bounds:
  assumes "1 \<le> m" "m \<le> 12"
  shows "0 \<le> days_before_month yr m"
    and "days_before_month yr m + month_length yr m \<le> 365 + (if leap yr then 1 else 0)"
  using assms
  by (cases m rule: month_cases; simp add: days_before_month_def upto_rec1 month_length_def)+

lemma int32_id: "- (2 ^ 31) \<le> v \<Longrightarrow> v < 2 ^ 31 \<Longrightarrow> int32 v = v"
  by (simp add: int32_def)

lemma tick_time_explicit:
  assumes v: "valid_datetime d"
  shows "tick_time d =
    (if sec d < 59 then d\<lparr>sec := sec d + 1\<rparr>
     else if min' d < 59 then d\<lparr>sec := 0, min' := min' d + 1\<rparr>
     else if hour d < 23 then d\<lparr>sec := 0, min' := 0, hour := hour d + 1\<rparr>
     else if day d < days_in_month (month d) (year d)
       then d\<lparr>sec := 0, min' := 0, hour := 0, day := day d + 1, dotw := (dotw d + 1) mod 7\<rparr>
     else if month d < 12
       then d\<lparr>sec := 0, min' := 0, hour := 0, day := 1, dotw := (dotw d + 1) mod 7,
              month := month d + 1\<rparr>
     else d\<lparr>sec := 0, min' := 0, hour := 0, day := 1, dotw := (dotw d + 1) mod 7,
            month := 1, year := int32 (year d + 1)\<rparr>)"
proof -
  from v have dim: "days_in_month (month d) (year d) \<le> 31"
    using month_length_pos(2) [of "year d" "month d"]
    by (simp add: valid_datetime_def days_in_month_length)
  from v have w: "int32 (dotw d + 1) smod 7 = (dotw d + 1) mod 7"
    by (simp add: valid_datetime_def int32_id smod_nonneg)
  from v dim have i: "int32 (sec d + 1) = sec d + 1" "int32 (min' d + 1) = min' d + 1"
    "int32 (hour d + 1) = hour d + 1" "int32 (day d + 1) = day d + 1"
    "int32 (month d + 1) = month d + 1"
    by (simp_all add: valid_datetime_def int32_id)
  show ?thesis
    by (auto simp: tick_time_def Let_def i w)
qed


lemma tick_time_advance:
  assumes v: "valid_datetime d" and nl: "\<not> last_second d"
  shows "to_seconds (tick_time d) = to_seconds d + 1 \<and> valid_datetime (tick_time d)"
proof -
  let ?yr = "year d" and ?m = "month d"
  from v have m: "1 \<le> ?m" "?m \<le> 12" by (simp_all add: valid_datetime_def)
  have dim: "days_in_month ?m ?yr = month_length ?yr ?m"
    by (rule days_in_month_length [OF m])
  note e = tick_time_explicit [OF v]
  from v dim have "sec d < 59 \<or> (sec d = 59 \<and> min' d < 59)
      \<or> (sec d = 59 \<and> min' d = 59 \<and> hour d < 23)
      \<or> (sec d = 59 \<and> min' d = 59 \<and> hour d = 23 \<and> day d < month_length ?yr ?m)
      \<or> (sec d = 59 \<and> min' d = 59 \<and> hour d = 23 \<and> day d = month_length ?yr ?m \<and> ?m < 12)
      \<or> (sec d = 59 \<and> min' d = 59 \<and> hour d = 23 \<and> day d = month_length ?yr ?m \<and> ?m = 12)"
    unfolding valid_datetime_def by arith
  then consider (s) "sec d < 59"
    | (mi) "sec d = 59" "min' d < 59"
    | (h) "sec d = 59" "min' d = 59" "hour d < 23"
    | (dd) "sec d = 59" "min' d = 59" "hour d = 23" "day d < month_length ?yr ?m"
    | (mm) "sec d = 59" "min' d = 59" "hour d = 23" "day d = month_length ?yr ?m" "?m < 12"
    | (yy) "sec d = 59" "min' d = 59" "hour d = 23" "day d = month_length ?yr ?m" "?m = 12"
    by blast
  then show ?thesis
  proof cases
    case s
    with v e show ?thesis by (simp add: to_seconds_def valid_datetime_def)
  next
    case mi
    with v e show ?thesis by (simp add: to_seconds_def valid_datetime_def)
  next
    case h
    with v e show ?thesis by (simp add: to_seconds_def valid_datetime_def)
  next
    case dd
    with v e dim show ?thesis by (simp add: to_seconds_def valid_datetime_def)
  next
    case mm
    from mm m have dim': "days_in_month (?m + 1) ?yr = month_length ?yr (?m + 1)"
      by (intro days_in_month_length) simp_all
    from mm v e dim dim' days_before_month_step [OF m(1), of ?yr]
      month_length_pos(1) [of ?yr "?m + 1"]
    show ?thesis by (simp add: to_seconds_def valid_datetime_def)
  next
    case yy
    then have d31: "day d = 31" by (simp add: month_length_def)
    from yy d31 nl have "?yr \<noteq> INT_MAX"
      by (auto simp: last_second_def day_rollover_def)
    with v have yr: "?yr < 2 ^ 31 - 1" "- (2 ^ 31) \<le> ?yr"
      by (simp_all add: valid_datetime_def INT_MAX_def)
    then have i: "int32 (?yr + 1) = ?yr + 1" by (simp add: int32_id)
    have dim1: "days_in_month 1 (?yr + 1) = 31"
      by (simp add: days_in_month_def days_table_def)
    from yy d31 v e dim i dim1 yr days_before_month_12 [of ?yr] days_before_year_step [of ?yr]
    show ?thesis
      by (simp add: to_seconds_def valid_datetime_def days_before_month_1 INT_MAX_def
               split: if_splits)
  qed
qed

lemma days_before_year_mono: "a \<le> b \<Longrightarrow> days_before_year a \<le> days_before_year b"
proof (induction b rule: int_ge_induct)
  case base
  show ?case by simp
next
  case (step i)
  with days_before_year_step [of i] show ?case by (simp split: if_splits)
qed

lemma year_from_unique:
  assumes "days_before_year yr \<le> n" "n < days_before_year (yr + 1)"
  shows "year_from y0 n = yr"
  using assms
proof (induction y0 n rule: year_from.induct)
  case (1 y0 n)
  show ?case
  proof (cases "n < days_before_year y0")
    case True
    with 1 show ?thesis by (subst year_from.simps) simp
  next
    case False
    note lo = this
    show ?thesis
    proof (cases "days_before_year (y0 + 1) \<le> n")
      case True
      with lo 1 show ?thesis by (subst year_from.simps) simp
    next
      case False
      have "y0 = yr"
      proof (rule ccontr)
        assume "y0 \<noteq> yr"
        then consider "y0 + 1 \<le> yr" | "yr + 1 \<le> y0" by arith
        then show False
        proof cases
          case 1
          from days_before_year_mono [OF this] False "1.prems" show False by simp
        next
          case 2
          from days_before_year_mono [OF this] lo "1.prems" show False by simp
        qed
      qed
      with lo False show ?thesis by (subst year_from.simps) simp
    qed
  qed
qed

lemma month_from_sum:
  assumes "k \<le> m" "m \<le> 12" "0 \<le> r" "r < month_length yr m"
  shows "month_from yr k (sum_list (map (month_length yr) [k..m - 1]) + r) = (m, r)"
  using assms
proof (induction "nat (m - k)" arbitrary: k)
  case 0
  then have "k = m" by simp
  with 0 show ?case by (subst month_from.simps) simp
next
  case (Suc j)
  then have km: "k < m" by simp
  then have up: "[k..m - 1] = k # [k + 1..m - 1]" by (simp add: upto_rec1)
  have nn: "0 \<le> sum_list (map (month_length yr) [k + 1..m - 1])"
    using month_length_pos(1) [of yr] by (intro sum_list_nonneg) (auto intro: order_trans [of 0 28])
  from Suc km have ih: "month_from yr (k + 1) (sum_list (map (month_length yr) [k + 1..m - 1]) + r)
        = (m, r)"
    by (intro Suc.hyps) simp_all
  from km Suc.prems nn ih show ?case
    by (subst month_from.simps) (simp add: up)
qed

lemma of_seconds_to_seconds:
  assumes v: "valid_datetime d"
  shows "of_seconds (dotw d) (to_seconds d) = d"
proof -
  let ?yr = "year d" and ?m = "month d"
  from v have m: "1 \<le> ?m" "?m \<le> 12" by (simp_all add: valid_datetime_def)
  have dim: "days_in_month ?m ?yr = month_length ?yr ?m"
    by (rule days_in_month_length [OF m])
  define r where "r = day d - 1"
  define dn where "dn = days_before_year ?yr + days_before_month ?yr ?m + r"
  define t where "t = (hour d * 60 + min' d) * 60 + sec d"
  from v dim have r: "0 \<le> r" "r < month_length ?yr ?m"
    by (simp_all add: r_def valid_datetime_def)
  from v have t: "0 \<le> t" "t < 86400" by (simp_all add: t_def valid_datetime_def)
  have n: "to_seconds d = t + dn * 86400"
    by (simp add: to_seconds_def dn_def t_def r_def algebra_simps)
  from t have dv: "to_seconds d div 86400 = dn" and md: "to_seconds d mod 86400 = t"
    by (simp_all add: n div_pos_pos_trivial)
  have hms: "t div 3600 = hour d" "t mod 3600 div 60 = min' d" "t mod 60 = sec d"
  proof -
    define u where "u = min' d * 60 + sec d"
    from v have u: "0 \<le> u" "u < 3600" by (simp_all add: u_def valid_datetime_def)
    have tu: "t = u + hour d * 3600" by (simp add: t_def u_def)
    from u show "t div 3600 = hour d" by (simp add: tu div_pos_pos_trivial)
    from u have tm: "t mod 3600 = u" by (simp add: tu)
    from v have s: "0 \<le> sec d" "sec d < 60" by (simp_all add: valid_datetime_def)
    have us: "u = sec d + min' d * 60" by (simp add: u_def)
    from s show "t mod 3600 div 60 = min' d" by (simp add: tm us div_pos_pos_trivial)
    have "t = sec d + (hour d * 60 + min' d) * 60" by (simp add: t_def)
    then have "t mod 60 = (sec d + (hour d * 60 + min' d) * 60) mod 60" by (rule arg_cong)
    also have "\<dots> = sec d mod 60" by (simp only: mod_mult_self1)
    also from s have "\<dots> = sec d" by simp
    finally show "t mod 60 = sec d" .
  qed
  have yr: "year_from (dn div 365) dn = ?yr"
  proof (rule year_from_unique)
    from days_before_month_bounds(1) [OF m, of ?yr] r
    show "days_before_year ?yr \<le> dn" by (simp add: dn_def)
    from days_before_month_bounds(2) [OF m, of ?yr] r days_before_year_step [of ?yr]
    show "dn < days_before_year (?yr + 1)" by (simp add: dn_def split: if_splits)
  qed
  have mo: "month_from ?yr 1 (dn - days_before_year ?yr) = (?m, r)"
    using month_from_sum [OF m(1) m(2) r] by (simp add: dn_def days_before_month_def)
  show ?thesis
    by (simp add: of_seconds_def Let_def dv md yr mo hms r_def)
qed


lemma tick_time_dotw:
  assumes v: "valid_datetime d"
  shows "dotw (tick_time d) = (if day_rollover d then (dotw d + 1) mod 7 else dotw d)"
  using v unfolding tick_time_explicit [OF v] day_rollover_def valid_datetime_def
  by auto

text \<open>
  Claim C1 (as amended). For every datetime within the ranges of the claim, except the
  last second of the year 2147483647, one call of \<^verbatim>\<open>tick_time\<close> advances the calendar
  by one second: the result is the linear second count plus one, converted back, with the
  day of the week stepped modulo 7 exactly when the day rolls over; the result is again a
  valid datetime; and February has 29 days exactly in the years divisible by 4 and not by
  100, or divisible by 400.
\<close>

theorem tick_time_one_second:
  assumes v: "valid_datetime d" and nl: "\<not> last_second d"
  shows "tick_time d = of_seconds (if day_rollover d then (dotw d + 1) mod 7 else dotw d)
                         (to_seconds d + 1)
       \<and> to_seconds (tick_time d) = to_seconds d + 1
       \<and> valid_datetime (tick_time d)
       \<and> days_in_month 2 (year d)
           = (if (4 dvd year d \<and> \<not> 100 dvd year d) \<or> 400 dvd year d then 29 else 28)"
proof -
  from tick_time_advance [OF v nl]
  have a: "to_seconds (tick_time d) = to_seconds d + 1" and v': "valid_datetime (tick_time d)"
    by simp_all
  from of_seconds_to_seconds [OF v']
  have "tick_time d = of_seconds (dotw (tick_time d)) (to_seconds d + 1)"
    by (simp add: a)
  then have "tick_time d = of_seconds (if day_rollover d then (dotw d + 1) mod 7 else dotw d)
                             (to_seconds d + 1)"
    by (simp only: tick_time_dotw [OF v])
  moreover have "days_in_month 2 (year d)
           = (if (4 dvd year d \<and> \<not> 100 dvd year d) \<or> 400 dvd year d then 29 else 28)"
    by (simp add: days_in_month_def is_leap_year_leap leap_def days_table_def)
  ultimately show ?thesis using a v' by simp
qed

lemma leap_2024: "is_leap_year 2024"
  by (simp add: is_leap_year_leap leap_def)

theorem tick_time_one_second_witness:
  "valid_datetime leap_eve \<and> \<not> last_second leap_eve
   \<and> tick_time leap_eve
       = \<lparr>year = 2024, month = 2, day = 29, dotw = 4, hour = 0, min' = 0, sec = 0\<rparr>
   \<and> tick_time leap_eve = of_seconds 4 (to_seconds leap_eve + 1)"
proof -
  have v: "valid_datetime leap_eve"
    by (simp add: valid_datetime_def leap_eve_def days_in_month_def leap_2024 INT_MAX_def)
  have nl: "\<not> last_second leap_eve"
    by (simp add: last_second_def leap_eve_def)
  have r: "day_rollover leap_eve"
    by (simp add: day_rollover_def leap_eve_def)
  have t: "tick_time leap_eve
       = \<lparr>year = 2024, month = 2, day = 29, dotw = 4, hour = 0, min' = 0, sec = 0\<rparr>"
    by (simp add: tick_time_explicit [OF v])
       (simp add: leap_eve_def days_in_month_def leap_2024)
  from tick_time_one_second [OF v nl] r
  have "tick_time leap_eve = of_seconds 4 (to_seconds leap_eve + 1)"
    by (simp add: leap_eve_def)
  with v nl t show ?thesis by simp
qed

text \<open>
  Claim C1 as stated fails at the last second of the largest year an \<^verbatim>\<open>int\<close> holds:
  \<^verbatim>\<open>current_time.year++\<close> wraps and the calendar jumps back.
\<close>

theorem tick_time_year_overflow:
  "valid_datetime year_max_eve
   \<and> tick_time year_max_eve
       = \<lparr>year = - 2147483648, month = 1, day = 1, dotw = 1, hour = 0, min' = 0, sec = 0\<rparr>
   \<and> to_seconds (tick_time year_max_eve) \<noteq> to_seconds year_max_eve + 1"
proof -
  have v: "valid_datetime year_max_eve"
    by (simp add: valid_datetime_def year_max_eve_def days_in_month_def days_table_def
                  INT_MAX_def)
  have t: "tick_time year_max_eve
       = \<lparr>year = - 2147483648, month = 1, day = 1, dotw = 1, hour = 0, min' = 0, sec = 0\<rparr>"
    by (simp add: tick_time_explicit [OF v])
       (simp add: year_max_eve_def days_in_month_def days_table_def int32_def)
  have "to_seconds \<lparr>year = - 2147483648, month = 1, day = 1, dotw = 1,
                     hour = 0, min' = 0, sec = 0\<rparr> < 0"
    by (simp add: to_seconds_def days_before_year_def days_before_month_1)
  moreover have "0 < to_seconds year_max_eve"
    using days_before_month_bounds(1) [of 12 2147483647]
    by (simp add: to_seconds_def year_max_eve_def days_before_year_def)
  ultimately show ?thesis using v t by simp
qed

subsection \<open>NTP replies\<close>

lemma shell_unix_time:
  fixes a tz :: "32 word"
  shows "uint (ucast (a - 2208988800 + tz * 3600) :: 64 word)
         = (uint a - 2208988800 + sint tz * 3600) mod 2 ^ 32"
proof -
  have "a - 2208988800 + tz * 3600 = (word_of_int (uint a - 2208988800 + sint tz * 3600) :: 32 word)"
    by simp
  then have "uint (a - 2208988800 + tz * 3600) = (uint a - 2208988800 + sint tz * 3600) mod 2 ^ 32"
    by (simp only: uint_word_of_int) simp
  moreover have "uint (ucast (a - 2208988800 + tz * 3600) :: 64 word)
                 = uint (a - 2208988800 + tz * 3600)"
    by (simp add: uint_up_ucast is_up)
  ultimately show ?thesis by simp
qed

lemma uint_ntp_time_of:
  "uint (ntp_time_of p) = int (be32 (p ! 40) (p ! 41) (p ! 42) (p ! 43))"
  by (simp only: ntp_time_of_def uint_nat unat_be32)

lemma uint_tx_ts:
  "uint (ntohl (load_u32 p offsetof_tx_ts)) = int (be32 (p ! 40) (p ! 41) (p ! 42) (p ! 43))"
proof -
  have "ntohl (load_u32 p 40) = ntp_time_of p"
    using ntohl_load_u32 [of p 40] by (simp add: ntp_time_of_def)
  then show ?thesis
    by (simp add: offsetof_tx_ts_def uint_ntp_time_of)
qed


text \<open>
  Claim C2 (as amended). The ASCII clock handles a datagram only when its total length is
  exactly 48 bytes; the handler of the two shell variants (the same code in both) handles
  every datagram of at least 48 bytes. A handled datagram gives the seconds of bytes 40 to
  43 read big-endian, minus 2208988800 (in the shell: plus 3600 times the timezone offset,
  the whole in 32-bit unsigned arithmetic); the clock is set to that value and marked as
  synced. An unhandled datagram leaves the time state and the synced flag as they were.
  Every datagram's buffer is freed.
\<close>

theorem ntp_handlers:
  "(tot_len p \<noteq> 48 \<longrightarrow> ntp_recv gmtime cs p = (cs, [p]))
   \<and> (tot_len p = 48 \<longrightarrow>
        ntp_recv gmtime cs p =
          ((timestamp_to_datetime gmtime
              (int (be32 (p ! 40) (p ! 41) (p ! 42) (p ! 43)) - 2208988800) cs)
             \<lparr>time_synced := True\<rparr>, [p]))
   \<and> (tot_len p < 48 \<longrightarrow>
        ntp_recv_callback lt clock st p = \<lparr>rr_state = st, rr_stdout = [], rr_freed = [p]\<rparr>)
   \<and> (48 \<le> tot_len p \<longrightarrow>
        uint (system_time_offset (rr_state (ntp_recv_callback lt clock st p)))
          = (int (be32 (p ! 40) (p ! 41) (p ! 42) (p ! 43)) - 2208988800
             + sint (timezone_offset st) * 3600) mod 2 ^ 32
        \<and> time_sync_base (rr_state (ntp_recv_callback lt clock st p)) = clock
        \<and> ntp_synced (rr_state (ntp_recv_callback lt clock st p))
        \<and> rr_freed (ntp_recv_callback lt clock st p) = [p])"
proof -
  have a: "tot_len p \<noteq> 48 \<Longrightarrow> ntp_recv gmtime cs p = (cs, [p])"
    by (simp add: ntp_recv_def sizeof_ntp_packet_t_def)
  have b: "tot_len p = 48 \<Longrightarrow> ntp_recv gmtime cs p =
          ((timestamp_to_datetime gmtime
              (int (be32 (p ! 40) (p ! 41) (p ! 42) (p ! 43)) - 2208988800) cs)
             \<lparr>time_synced := True\<rparr>, [p])"
    by (simp add: ntp_recv_def sizeof_ntp_packet_t_def Let_def uint_tx_ts NTP_DELTA_def
                  UK_TIMEZONE_OFFSET_def)
  have c: "tot_len p < 48 \<Longrightarrow>
        ntp_recv_callback lt clock st p = \<lparr>rr_state = st, rr_stdout = [], rr_freed = [p]\<rparr>"
    by (simp add: ntp_recv_callback_def)
  have d: "48 \<le> tot_len p \<Longrightarrow>
        uint (system_time_offset (rr_state (ntp_recv_callback lt clock st p)))
          = (int (be32 (p ! 40) (p ! 41) (p ! 42) (p ! 43)) - 2208988800
             + sint (timezone_offset st) * 3600) mod 2 ^ 32
        \<and> time_sync_base (rr_state (ntp_recv_callback lt clock st p)) = clock
        \<and> ntp_synced (rr_state (ntp_recv_callback lt clock st p))
        \<and> rr_freed (ntp_recv_callback lt clock st p) = [p]"
    using shell_unix_time [of "ntp_time_of p" "timezone_offset st"]
    by (simp add: ntp_recv_callback_def Let_def set_current_time_def ntp_unix_time_def
                  uint_ntp_time_of)
  from a b c d show ?thesis by blast
qed

theorem ntp_handlers_witness:
  "tot_len (replicate 40 0 @ [0xEB, 0x23, 0xC0, 0x80] @ replicate 4 0) = 48
   \<and> current_time (fst (ntp_recv sample_gmtime clock0
                           (replicate 40 0 @ [0xEB, 0x23, 0xC0, 0x80] @ replicate 4 0)))
       = \<lparr>year = 1970, month = 1, day = 1, dotw = 4, hour = 0, min' = 0, sec = 0\<rparr>
   \<and> time_synced (fst (ntp_recv sample_gmtime clock0
                          (replicate 40 0 @ [0xEB, 0x23, 0xC0, 0x80] @ replicate 4 0)))
   \<and> uint (system_time_offset (rr_state (ntp_recv_callback sample_localtime 7 boot_state
               (replicate 40 0 @ [0xEB, 0x23, 0xC0, 0x80] @ replicate 4 0)))) = 1736000000
   \<and> tot_len (replicate 47 0) < 48
   \<and> tot_len (replicate 47 0) \<noteq> 48
   \<and> ntp_recv sample_gmtime clock0 (replicate 47 0) = (clock0, [replicate 47 0])
   \<and> rr_state (ntp_recv_callback sample_localtime 7 boot_state (replicate 47 0)) = boot_state"
proof -
  let ?p = "replicate 40 0 @ [0xEB, 0x23, 0xC0, 0x80] @ replicate 4 (0 :: byte)"
  have l: "tot_len ?p = 48" by (simp add: tot_len_def)
  have n: "?p ! 40 = 0xEB" "?p ! 41 = 0x23" "?p ! 42 = 0xC0" "?p ! 43 = 0x80"
    by (simp_all add: nth_append)
  have be: "be32 0xEB 0x23 0xC0 0x80 = 3944988800"
    by (simp add: be32_def)
  have s: "tot_len (replicate 47 (0 :: byte)) = 47" by (simp add: tot_len_def)
  from ntp_handlers [of ?p sample_gmtime clock0 sample_localtime 7 boot_state] l
  have 1: "ntp_recv sample_gmtime clock0 ?p
           = ((timestamp_to_datetime sample_gmtime 1736000000 clock0)\<lparr>time_synced := True\<rparr>, [?p])"
    and 2: "uint (system_time_offset (rr_state (ntp_recv_callback sample_localtime 7 boot_state ?p)))
           = 1736000000"
    by (simp_all only: n be) (simp_all add: boot_state_def)
  from ntp_handlers [of "replicate 47 0" sample_gmtime clock0 sample_localtime 7 boot_state] s
  have 3: "ntp_recv sample_gmtime clock0 (replicate 47 0) = (clock0, [replicate 47 0])"
    and 4: "rr_state (ntp_recv_callback sample_localtime 7 boot_state (replicate 47 0)) = boot_state"
    by simp_all
  from l s 1 2 3 4 show ?thesis
    by (simp add: timestamp_to_datetime_def sample_gmtime_def Let_def)
qed

text \<open>
  Claim C2 as stated fails in the shell variants: their guard is \<^verbatim>\<open>p->tot_len >= 48\<close>,
  so a datagram of 49 bytes, which is not 48 bytes long, still sets the clock and the
  synced flag.
\<close>

theorem ntp_recv_callback_49_bytes:
  "tot_len (replicate 49 0) \<noteq> 48
   \<and> ntp_synced (rr_state (ntp_recv_callback sample_localtime 7 boot_state (replicate 49 0)))
   \<and> \<not> ntp_synced boot_state
   \<and> system_time_offset (rr_state (ntp_recv_callback sample_localtime 7 boot_state
                                      (replicate 49 0))) = 2085978496
   \<and> system_time_offset boot_state = 0"
  by (simp add: tot_len_def ntp_recv_callback_def Let_def set_current_time_def
                ntp_unix_time_def ntp_time_of_def boot_state_def)

subsection \<open>To-do list: adding a task\<close>














subsection \<open>Shell OS: filesystem start\<close>

text \<open>
  Claim C4. \<^verbatim>\<open>init_filesystem\<close> (the same code in both shell variants) mounts first. If
  that mount succeeds, nothing is formatted. If it fails, the filesystem is formatted; if
  the format fails the function logs the error and returns with no further call; otherwise
  the mount is tried exactly once more, and if that fails the function logs the error and
  returns. In every case there are at most two mounts and one format.
\<close>

theorem init_filesystem_retry_once:
  "(lfs [Mount] = 0 \<longrightarrow>
      fs_calls (init_filesystem lfs lt clock st) = [Mount]
      \<and> fs_state (init_filesystem lfs lt clock st)
          = log_message lt clock st ''Filesystem mounted successfully'')
   \<and> (lfs [Mount] \<noteq> 0 \<and> lfs [Mount, Format] \<noteq> 0 \<longrightarrow>
      fs_calls (init_filesystem lfs lt clock st) = [Mount, Format]
      \<and> fs_state (init_filesystem lfs lt clock st)
          = log_message lt clock st ''ERROR: Filesystem format failed'')
   \<and> (lfs [Mount] \<noteq> 0 \<and> lfs [Mount, Format] = 0 \<and> lfs [Mount, Format, Mount] \<noteq> 0 \<longrightarrow>
      fs_calls (init_filesystem lfs lt clock st) = [Mount, Format, Mount]
      \<and> fs_state (init_filesystem lfs lt clock st)
          = log_message lt clock st ''ERROR: Filesystem mount failed'')
   \<and> (lfs [Mount] \<noteq> 0 \<and> lfs [Mount, Format] = 0 \<and> lfs [Mount, Format, Mount] = 0 \<longrightarrow>
      fs_calls (init_filesystem lfs lt clock st) = [Mount, Format, Mount]
      \<and> fs_state (init_filesystem lfs lt clock st)
          = log_message lt clock st ''Filesystem mounted successfully'')
   \<and> count_list (fs_calls (init_filesystem lfs lt clock st)) Mount \<le> 2
   \<and> count_list (fs_calls (init_filesystem lfs lt clock st)) Format \<le> 1"
  by (simp add: init_filesystem_def Let_def)

theorem init_filesystem_retry_once_witness:
  "blank_flash [Mount] \<noteq> 0 \<and> blank_flash [Mount, Format] = 0
   \<and> blank_flash [Mount, Format, Mount] = 0
   \<and> fs_calls (init_filesystem blank_flash sample_localtime 0 boot_state)
       = [Mount, Format, Mount]
   \<and> log_count (fs_state (init_filesystem blank_flash sample_localtime 0 boot_state)) = 1"
  using init_filesystem_retry_once [of blank_flash sample_localtime 0 boot_state]
  by (simp add: blank_flash_def log_message_def Let_def boot_state_def MAX_LOG_ENTRIES_def)

subsection \<open>ASCII clock: time source\<close>

lemma ntp_recv_other_length:
  "tot_len p \<noteq> 48 \<Longrightarrow> ntp_recv g st p = (st, [p])"
  by (simp add: ntp_recv_def sizeof_ntp_packet_t_def)

lemma ntp_recv_keeps_synced:
  "time_synced st \<Longrightarrow> time_synced (fst (ntp_recv g st p))"
  by (simp add: ntp_recv_def Let_def timestamp_to_datetime_def)

lemma deliver_quiet:
  "\<forall>p \<in> set ps. tot_len p \<noteq> 48 \<Longrightarrow> deliver g st ps = st"
  by (induction ps arbitrary: st) (simp_all add: deliver_def ntp_recv_other_length)

lemma deliver_keeps_synced:
  "time_synced st \<Longrightarrow> time_synced (deliver g st ps)"
  by (induction ps arbitrary: st) (simp_all add: deliver_def ntp_recv_keeps_synced)

lemma display_clock_source:
  "last (display_clock st)
   = (if time_synced st then ''Time source: NTP'' @ NL else ''Time source: MANUAL'' @ NL)"
  by (simp add: display_clock_def Let_def)

lemma clock_loop_synced:
  "time_synced st \<Longrightarrow> \<forall>out \<in> set (clock_loop g arr reg n k st). last out = ''Time source: NTP'' @ NL"
proof (induction n arbitrary: k st)
  case 0
  show ?case by simp
next
  case (Suc n)
  let ?st1 = "if reg then deliver g st (arr k) else st"
  from Suc.prems have "time_synced ?st1" by (simp add: deliver_keeps_synced)
  then have "time_synced (?st1\<lparr>current_time := tick_time (current_time ?st1)\<rparr>)" by simp
  from Suc.IH [OF this] Suc.prems show ?case
    by (simp add: display_clock_source Let_def)
qed

lemma clock_loop_manual:
  assumes "\<not> time_synced st"
    and "reg \<longrightarrow> (\<forall>j<n. \<forall>p \<in> set (arr (k + j)). tot_len p \<noteq> 48)"
  shows "\<forall>out \<in> set (clock_loop g arr reg (Suc n) k st). last out = ''Time source: MANUAL'' @ NL"
  using assms
proof (induction n arbitrary: k st)
  case 0
  then show ?case by (simp add: display_clock_source)
next
  case (Suc n)
  let ?st1 = "if reg then deliver g st (arr k) else st"
  let ?st2 = "?st1\<lparr>current_time := tick_time (current_time ?st1)\<rparr>"
  from Suc.prems(2) have "reg \<longrightarrow> (\<forall>p \<in> set (arr k). tot_len p \<noteq> 48)"
    by (auto dest: spec [of _ 0])
  then have st1: "?st1 = st" by (simp add: deliver_quiet)
  with Suc.prems have ns: "\<not> time_synced ?st2" by simp
  have q: "reg \<longrightarrow> (\<forall>j<n. \<forall>p \<in> set (arr (Suc k + j)). tot_len p \<noteq> 48)"
  proof (intro impI allI)
    fix j assume "reg" "j < n"
    then have "reg" "Suc j < Suc n" by simp_all
    with Suc.prems(2) have "\<forall>p \<in> set (arr (k + Suc j)). tot_len p \<noteq> 48" by blast
    then show "\<forall>p \<in> set (arr (Suc k + j)). tot_len p \<noteq> 48" by simp
  qed
  from Suc.IH [OF ns q]
  have "\<forall>out \<in> set (clock_loop g arr reg (Suc n) (Suc k) ?st2).
          last out = ''Time source: MANUAL'' @ NL" .
  with Suc.prems(1) show ?case
    by (subst clock_loop.simps) (simp add: display_clock_source Let_def del: clock_loop.simps)
qed

lemma poll_quiet:
  assumes "\<not> time_synced st" "\<forall>j < 50 - i. \<forall>p \<in> set (arr (k + j)). tot_len p \<noteq> 48"
  shows "poll g arr i k st = (st, k + (50 - i))"
  using assms
proof (induction "50 - i" arbitrary: i k)
  case 0
  then show ?case by (subst poll.simps) simp
next
  case (Suc m)
  then have i: "i < 50" by simp
  from Suc.prems(2) i have "\<forall>p \<in> set (arr k). tot_len p \<noteq> 48"
    by (auto dest: spec [of _ 0])
  then have d: "deliver g st (arr k) = st" by (rule deliver_quiet)
  have q: "\<forall>j < 50 - (i + 1). \<forall>p \<in> set (arr (k + 1 + j)). tot_len p \<noteq> 48"
  proof (intro allI impI)
    fix j assume "j < 50 - (i + 1)"
    then have "Suc j < 50 - i" by simp
    with Suc.prems(2) have "\<forall>p \<in> set (arr (k + Suc j)). tot_len p \<noteq> 48" by blast
    then show "\<forall>p \<in> set (arr (k + 1 + j)). tot_len p \<noteq> 48" by simp
  qed
  from Suc.hyps(2) have m: "m = 50 - (i + 1)" by simp
  from Suc.hyps(1) [OF m Suc.prems(1) q] i Suc.prems(1) d show ?case
    by (subst poll.simps) simp
qed

lemma main_start_cases:
  "main_start g env =
     (if no_ntp env then manual_time clock0 0 False 0
      else if \<not> time_synced (polled g env)
        then manual_time (polled g env) 1 True
               (snd (poll g (arrivals env) 0 1 (deliver g clock0 (arrivals env 0))))
      else \<lparr>b_clock = polled g env, b_requests = 1, b_registered = True,
             b_sleeps = snd (poll g (arrivals env) 0 1 (deliver g clock0 (arrivals env 0)))\<rparr>)"
  by (simp add: main_start_def no_ntp_def polled_def Let_def split_beta)

text \<open>
  Claim C5 (as amended). \<^verbatim>\<open>main\<close> sends at most one NTP request, and exactly one when
  the WiFi chip starts, the connection succeeds and the UDP socket is created. If one of
  these fails, or the synced flag is still clear after the 50 polls, the clock starts from
  2026-02-01 10:48:00, day of week 6, with the flag clear. When no socket was created every
  display prints ``Time source: MANUAL''; after a timeout the displays print it as long as
  no 48-byte datagram has reached the socket, whose receive callback stays registered. If
  the sync succeeds every display prints ``Time source: NTP''.
\<close>

theorem ascii_clock_start:
  "b_requests (main_start g env) \<le> 1
   \<and> (b_requests (main_start g env) = 1 \<longleftrightarrow> \<not> no_ntp env)
   \<and> (no_ntp env \<or> \<not> time_synced (polled g env) \<longrightarrow>
        current_time (b_clock (main_start g env)) = manual_datetime
        \<and> \<not> time_synced (b_clock (main_start g env)))
   \<and> (no_ntp env \<longrightarrow>
        (\<forall>out \<in> set (main_displays g env n). last out = ''Time source: MANUAL'' @ NL))
   \<and> (\<not> no_ntp env \<and> \<not> time_synced (polled g env)
        \<and> (\<forall>j<n. \<forall>p \<in> set (arrivals env (b_sleeps (main_start g env) + j)). tot_len p \<noteq> 48)
        \<longrightarrow> (\<forall>out \<in> set (main_displays g env (Suc n)).
               last out = ''Time source: MANUAL'' @ NL))
   \<and> (\<not> no_ntp env \<and> time_synced (polled g env) \<longrightarrow>
        (\<forall>out \<in> set (main_displays g env n). last out = ''Time source: NTP'' @ NL))"
proof -
  note c = main_start_cases [of g env]
  have r: "b_requests (main_start g env) \<le> 1"
    "b_requests (main_start g env) = 1 \<longleftrightarrow> \<not> no_ntp env"
    by (simp_all add: c manual_time_def)
  have m: "no_ntp env \<or> \<not> time_synced (polled g env) \<Longrightarrow>
        current_time (b_clock (main_start g env)) = manual_datetime
        \<and> \<not> time_synced (b_clock (main_start g env))"
    by (auto simp: c manual_time_def init_time_def manual_datetime_def clock0_def)
  have d1: "\<forall>out \<in> set (main_displays g env n). last out = ''Time source: MANUAL'' @ NL"
    if "no_ntp env"
  proof (cases n)
    case 0
    then show ?thesis by (simp add: main_displays_def Let_def)
  next
    case (Suc n')
    have "\<forall>out \<in> set (clock_loop g (arrivals env) False (Suc n') 0
                          (init_time 2026 2 1 6 10 48 0 clock0)).
            last out = ''Time source: MANUAL'' @ NL"
      by (rule clock_loop_manual) (simp_all add: init_time_def clock0_def)
    with that Suc show ?thesis
      by (simp add: main_displays_def Let_def c manual_time_def del: clock_loop.simps)
  qed
  have d2: "\<forall>out \<in> set (main_displays g env (Suc n)). last out = ''Time source: MANUAL'' @ NL"
    if a: "\<not> no_ntp env" "\<not> time_synced (polled g env)"
      and q: "\<forall>j<n. \<forall>p \<in> set (arrivals env (b_sleeps (main_start g env) + j)). tot_len p \<noteq> 48"
  proof -
    let ?k = "snd (poll g (arrivals env) 0 1 (deliver g clock0 (arrivals env 0)))"
    from a have k: "b_sleeps (main_start g env) = ?k"
      by (simp add: c manual_time_def)
    have "\<forall>out \<in> set (clock_loop g (arrivals env) True (Suc n) ?k
                          (init_time 2026 2 1 6 10 48 0 (polled g env))).
            last out = ''Time source: MANUAL'' @ NL"
      using a(2) q unfolding k by (intro clock_loop_manual) (simp_all add: init_time_def)
    with a show ?thesis
      by (simp add: main_displays_def Let_def c manual_time_def del: clock_loop.simps)
  qed
  have d3: "\<forall>out \<in> set (main_displays g env n). last out = ''Time source: NTP'' @ NL"
    if a: "\<not> no_ntp env" "time_synced (polled g env)"
    using a clock_loop_synced [of "polled g env" g "arrivals env" True n]
    by (simp add: main_displays_def Let_def c)
  from r m d1 d2 d3 show ?thesis by blast
qed

lemma late_reply_polled:
  "poll sample_gmtime (arrivals late_reply) 0 (Suc 0)
     (deliver sample_gmtime clock0 (arrivals late_reply 0)) = (clock0, 51)"
proof -
  have d: "deliver sample_gmtime clock0 (arrivals late_reply 0) = clock0"
    by (simp add: late_reply_def deliver_def)
  have "poll sample_gmtime (arrivals late_reply) 0 (Suc 0) clock0 = (clock0, Suc 0 + (50 - 0))"
    by (rule poll_quiet) (simp_all add: clock0_def late_reply_def)
  with d show ?thesis by simp
qed

lemma clock_loop_length: "length (clock_loop g arr reg n k st) = n"
  by (induction n arbitrary: k st) (simp_all add: Let_def)

theorem ascii_clock_start_witness:
  "\<not> no_ntp no_reply \<and> \<not> time_synced (polled sample_gmtime no_reply)
   \<and> b_requests (main_start sample_gmtime no_reply) = 1
   \<and> current_time (b_clock (main_start sample_gmtime no_reply)) = manual_datetime
   \<and> last (main_displays sample_gmtime no_reply 3 ! 2) = ''Time source: MANUAL'' @ NL
   \<and> no_ntp dead_wifi
   \<and> last (main_displays sample_gmtime dead_wifi 3 ! 2) = ''Time source: MANUAL'' @ NL"
proof -
  have a: "\<not> no_ntp no_reply" by (simp add: no_ntp_def no_reply_def)
  have d: "deliver sample_gmtime clock0 (arrivals no_reply 0) = clock0"
    by (simp add: no_reply_def deliver_def)
  have "poll sample_gmtime (arrivals no_reply) 0 1 clock0 = (clock0, 1 + (50 - 0))"
    by (rule poll_quiet) (simp_all add: clock0_def no_reply_def)
  with d have b: "\<not> time_synced (polled sample_gmtime no_reply)"
    by (simp add: polled_def) (simp add: clock0_def)
  have q: "\<forall>j<2. \<forall>p \<in> set (arrivals no_reply (b_sleeps (main_start sample_gmtime no_reply) + j)).
            tot_len p \<noteq> 48"
    by (simp add: no_reply_def)
  have w: "no_ntp dead_wifi" by (simp add: no_ntp_def dead_wifi_def)
  have m: "main_displays g env 3 ! 2 \<in> set (main_displays g env 3)" for g env
    by (rule nth_mem) (simp add: main_displays_def Let_def clock_loop_length)
  from ascii_clock_start [of sample_gmtime no_reply 2] a b q
  have "\<forall>out \<in> set (main_displays sample_gmtime no_reply 3). last out = ''Time source: MANUAL'' @ NL"
    and "b_requests (main_start sample_gmtime no_reply) = 1"
    and "current_time (b_clock (main_start sample_gmtime no_reply)) = manual_datetime"
    by (simp_all add: numeral_3_eq_3)
  moreover from ascii_clock_start [of sample_gmtime dead_wifi 3] w
  have "\<forall>out \<in> set (main_displays sample_gmtime dead_wifi 3). last out = ''Time source: MANUAL'' @ NL"
    by simp
  ultimately show ?thesis using a b w m by blast
qed

text \<open>
  Claim C5 as stated fails in two places. When the WiFi chip does not start, \<^verbatim>\<open>main\<close>
  sends no request at all. And after a timeout the receive callback is still registered:
  a reply that arrives during the first sleep of the clock loop sets the flag, and the
  second display prints ``Time source: NTP'' although the clock was started from the
  fixed datetime.
\<close>

theorem late_reply_shows_ntp:
  "b_requests (main_start sample_gmtime dead_wifi) = 0
   \<and> \<not> time_synced (polled sample_gmtime late_reply)
   \<and> current_time (b_clock (main_start sample_gmtime late_reply)) = manual_datetime
   \<and> last (main_displays sample_gmtime late_reply 2 ! 0) = ''Time source: MANUAL'' @ NL
   \<and> last (main_displays sample_gmtime late_reply 2 ! 1) = ''Time source: NTP'' @ NL"
proof -
  have w: "no_ntp dead_wifi" by (simp add: no_ntp_def dead_wifi_def)
  have a: "\<not> no_ntp late_reply" by (simp add: no_ntp_def late_reply_def)
  have p: "polled sample_gmtime late_reply = clock0"
    by (simp add: polled_def late_reply_polled)
  have s: "main_start sample_gmtime late_reply = manual_time clock0 1 True 51"
    by (simp add: main_start_cases a p late_reply_polled) (simp add: clock0_def)
  have r: "time_synced (deliver sample_gmtime st (arrivals late_reply 51))" for st
    by (simp add: late_reply_def deliver_def ntp_recv_def tot_len_def sizeof_ntp_packet_t_def
                  Let_def timestamp_to_datetime_def)
  have d: "main_displays sample_gmtime late_reply 2
           = [display_clock (init_time 2026 2 1 6 10 48 0 clock0),
              display_clock ((deliver sample_gmtime (init_time 2026 2 1 6 10 48 0 clock0)
                                (arrivals late_reply 51))
                 \<lparr>current_time := tick_time (current_time
                     (deliver sample_gmtime (init_time 2026 2 1 6 10 48 0 clock0)
                        (arrivals late_reply 51)))\<rparr>)]"
    by (simp add: main_displays_def s manual_time_def Let_def numeral_2_eq_2)
  show ?thesis
    by (simp add: d display_clock_source r main_start_cases w manual_time_def p
                  init_time_def clock0_def manual_datetime_def s)
qed

subsection \<open>Web server: the reply to GET\<close>

lemma char_diff_zero [simp]: "(char_diff a b = 0) = (a = b)"
  by (simp add: char_diff_def)

lemma strncmp_GET:
  assumes "payload \<noteq> []" "payload \<noteq> ''G''" "payload \<noteq> ''GE''"
  shows "\<exists>r. strncmp (HTTP_GET @ [NUL]) payload (strlen HTTP_GET) = Inr r
             \<and> (r = 0) = (take 3 payload = ''GET'')"
proof -
  from assms(1) obtain a r1 where 1: "payload = a # r1" by (cases payload) auto
  show ?thesis
  proof (cases r1)
    case Nil
    with 1 assms(2) show ?thesis
      by (simp add: HTTP_GET_def strlen_def numeral_3_eq_3 NUL_def)
  next
    case (Cons b r2)
    note 2 = this
    show ?thesis
    proof (cases r2)
      case Nil
      with 1 2 assms(3) show ?thesis
        by (auto simp: HTTP_GET_def strlen_def numeral_3_eq_3 NUL_def)
    next
      case (Cons c rest)
      with 1 2 show ?thesis
        by (simp add: HTTP_GET_def strlen_def numeral_3_eq_3 NUL_def)
    qed
  qed
qed

lemma send_page_response:
  "malloc_ok env \<Longrightarrow>
   send_page env = TcpWrite (HTTP_RESPONSE_HEADERS 200 (int (length html_content)) @ html_content)
                   # (if tcp_write_result env = ERR_OK then [TcpOutput] else [])"
  by (simp add: send_page_def Let_def strlen_def snprintf_def)

text \<open>
  Claim C6 (as amended). For every non-empty segment other than the cut-off requests ``G''
  and ``GE'', and provided the response buffer can be allocated, \<^verbatim>\<open>tcp_write\<close> is
  called if and only if the payload begins with the three bytes ``GET''; what is written
  is the header (status 200, Content-Length the length of the page, Content-Type
  text/html, Connection close) followed by the page. Such a segment that does not begin
  with ``GET'' produces no write, and neither does any when the allocation fails. In all
  these cases the received length is acknowledged and the buffer is freed, in that order,
  and ERR_OK is returned.
\<close>

theorem tcp_server_recv_get:
  "(payload \<notin> {[], ''G'', ''GE''} \<and> take 3 payload = ''GET'' \<and> malloc_ok env \<longrightarrow>
      tcp_server_recv env (Some payload)
        = Inr (ERR_OK,
               TcpWrite (HTTP_RESPONSE_HEADERS 200 (int (length html_content)) @ html_content)
               # (if tcp_write_result env = ERR_OK then [TcpOutput] else [])
               @ [TcpRecved (length payload), PbufFree]))
   \<and> (payload \<notin> {[], ''G'', ''GE''} \<and> (take 3 payload \<noteq> ''GET'' \<or> \<not> malloc_ok env) \<longrightarrow>
      tcp_server_recv env (Some payload) = Inr (ERR_OK, [TcpRecved (length payload), PbufFree]))
   \<and> HTTP_RESPONSE_HEADERS 200 (int (length html_content))
       = ''HTTP/1.1 200 OK'' @ NL @ ''Content-Length: '' @ fmt_d 0 (int (length html_content)) @ NL
         @ ''Content-Type: text/html; charset=utf-8'' @ NL @ ''Connection: close'' @ NL @ NL"
proof -
  have h: "fmt_d 0 200 = ''200''"
    by (simp add: fmt_d_def fmt_u_def dec.simps digit_char_def)
  have s: "\<exists>r. strncmp (HTTP_GET @ [NUL]) payload (strlen HTTP_GET) = Inr r
             \<and> (r = 0) = (take 3 payload = ''GET'')"
    if "payload \<notin> {[], ''G'', ''GE''}"
    using that by (intro strncmp_GET) simp_all
  have a: "payload \<notin> {[], ''G'', ''GE''} \<Longrightarrow> take 3 payload = ''GET'' \<Longrightarrow> malloc_ok env \<Longrightarrow>
      tcp_server_recv env (Some payload)
        = Inr (ERR_OK,
               TcpWrite (HTTP_RESPONSE_HEADERS 200 (int (length html_content)) @ html_content)
               # (if tcp_write_result env = ERR_OK then [TcpOutput] else [])
               @ [TcpRecved (length payload), PbufFree])"
    using s by (auto simp: tcp_server_recv_def send_page_response)
  have b: "payload \<notin> {[], ''G'', ''GE''} \<Longrightarrow> take 3 payload \<noteq> ''GET'' \<Longrightarrow>
      tcp_server_recv env (Some payload) = Inr (ERR_OK, [TcpRecved (length payload), PbufFree])"
    using s by (auto simp: tcp_server_recv_def)
  have c: "payload \<notin> {[], ''G'', ''GE''} \<Longrightarrow> \<not> malloc_ok env \<Longrightarrow>
      tcp_server_recv env (Some payload) = Inr (ERR_OK, [TcpRecved (length payload), PbufFree])"
    using s by (auto simp: tcp_server_recv_def send_page_def Let_def)
  have d: "HTTP_RESPONSE_HEADERS 200 (int (length html_content))
       = ''HTTP/1.1 200 OK'' @ NL @ ''Content-Length: '' @ fmt_d 0 (int (length html_content)) @ NL
         @ ''Content-Type: text/html; charset=utf-8'' @ NL @ ''Connection: close'' @ NL @ NL"
    by (simp add: HTTP_RESPONSE_HEADERS_def h)
  from a b c d show ?thesis by blast
qed

theorem tcp_server_recv_get_witness:
  "take 3 ''GET / HTTP/1.1'' = ''GET'' \<and> malloc_ok plenty
   \<and> tcp_server_recv plenty (Some ''GET / HTTP/1.1'')
       = Inr (0, [TcpWrite (HTTP_RESPONSE_HEADERS 200 (int (length html_content)) @ html_content),
                  TcpOutput, TcpRecved 14, PbufFree])
   \<and> take 3 ''POST /x'' \<noteq> ''GET''
   \<and> tcp_server_recv plenty (Some ''POST /x'') = Inr (0, [TcpRecved 7, PbufFree])
   \<and> tcp_server_recv plenty (Some ''X'') = Inr (0, [TcpRecved 1, PbufFree])"
  using tcp_server_recv_get [of "''GET / HTTP/1.1''" plenty]
    tcp_server_recv_get [of "''POST /x''" plenty] tcp_server_recv_get [of "''X''" plenty]
  by (simp add: plenty_def ERR_OK_def)

text \<open>
  Claim C6 as stated fails when \<^verbatim>\<open>malloc\<close> returns null: the guard \<^verbatim>\<open>if (response)\<close>
  skips the write, so a segment that begins with ``GET'' is acknowledged and freed with
  nothing written.
\<close>

theorem get_without_memory:
  "take 3 ''GET / HTTP/1.1'' = ''GET''
   \<and> tcp_server_recv out_of_memory (Some ''GET / HTTP/1.1'')
       = Inr (0, [TcpRecved 14, PbufFree])"
  by (simp add: tcp_server_recv_def send_page_def Let_def out_of_memory_def ERR_OK_def
                HTTP_GET_def strlen_def numeral_3_eq_3 NUL_def)

subsection \<open>Tetris: clearing lines\<close>

lemma clear_lines_loop_split:
  assumes "board = upper @ lower" "i = int (length upper) - 1"
  shows "clear_lines_loop board i l =
         Some (replicate (count_full upper) zero_row @ filter (\<lambda>r. \<not> row_full r) upper @ lower,
               l + int (count_full upper))"
  using assms
proof (induction board i l arbitrary: upper lower rule: clear_lines_loop.induct)
  case (1 board i l)
  show ?case
  proof (cases upper rule: rev_cases)
    case Nil
    with "1.prems" show ?thesis by (simp add: count_full_def)
  next
    case (snoc t r)
    with "1.prems" have i: "i = int (length t)" and b: "board = t @ r # lower" by simp_all
    then have i0: "i \<ge> 0" and il: "nat i < length board" and ri: "board ! nat i = r"
      by simp_all
    show ?thesis
    proof (cases "row_full r")
      case True
      have sh: "(shift_rows board (nat i))[0 := zero_row] = (zero_row # t) @ lower"
        using shift_rows_eq [OF il, of zero_row] i b by simp
      have "clear_lines_loop ((shift_rows board (nat i))[0 := zero_row]) (i + 1 - 1) (l + 1)
            = Some (replicate (count_full (zero_row # t)) zero_row
                    @ filter (\<lambda>r. \<not> row_full r) (zero_row # t) @ lower,
                    l + 1 + int (count_full (zero_row # t)))"
        using i0 il ri True i by (intro "1.IH"(1) sh) simp_all
      then show ?thesis
        using i0 il ri True snoc
        by (subst clear_lines_loop.simps)
           (simp add: count_full_def zero_row_not_full replicate_app_Cons_same)
    next
      case False
      have "clear_lines_loop board (i - 1) l
            = Some (replicate (count_full t) zero_row
                    @ filter (\<lambda>r. \<not> row_full r) t @ r # lower, l + int (count_full t))"
        using i0 il ri False i b by (intro "1.IH"(2)) simp_all
      then show ?thesis
        using i0 il ri False snoc
        by (subst clear_lines_loop.simps) (simp add: count_full_def)
    qed
  qed
qed

lemma clear_lines_eq:
  assumes "length b = TETRIS_HEIGHT"
  shows "clear_lines b =
         Some (replicate (count_full b) zero_row @ filter (\<lambda>r. \<not> row_full r) b,
               int (count_full b))"
  using clear_lines_loop_split [of b b "[]" "int TETRIS_HEIGHT - 1" 0] assms
  by (simp add: clear_lines_def)

lemma row_full_occupied:
  assumes "length r = TETRIS_WIDTH" "row_full r"
  shows "length (filter (\<lambda>c. c \<noteq> 0) r) = TETRIS_WIDTH"
proof -
  have "\<forall>c \<in> set r. c \<noteq> 0"
    using assms by (auto simp: row_full_def in_set_conv_nth list_all_iff)
  then have "filter (\<lambda>c. c \<noteq> 0) r = r" by (simp add: filter_id_conv)
  with assms show ?thesis by simp
qed

lemma occupied_split:
  assumes "list_all (\<lambda>r. length r = TETRIS_WIDTH) b"
  shows "occupied b = occupied (filter (\<lambda>r. \<not> row_full r) b) + TETRIS_WIDTH * count_full b"
  using assms
  by (induction b) (simp_all add: occupied_def count_full_def row_full_occupied)

lemma occupied_zero_rows: "occupied (replicate n zero_row @ b) = occupied b"
  by (induction n) (simp_all add: occupied_def zero_row_def)

lemma length_filter_split:
  "length (filter P xs) + length (filter (\<lambda>x. \<not> P x) xs) = length xs"
  by (induction xs) simp_all

text \<open>
  Claim C7. On every 20x10 board \<^verbatim>\<open>clear_lines\<close> returns; the number returned is the
  number of full rows (all 10 cells non-zero); the new board is that many zero rows on top
  of the rows that were not full, in their original order (so every row above a removed
  one has moved down, once for each removed row beneath it); no row of the new board is full; and
  the number of occupied cells has gone down by exactly 10 times the number returned.
\<close>

theorem clear_lines_correct:
  assumes "board_ok b"
  shows "\<exists>b' n. clear_lines b = Some (b', n)
     \<and> n = int (count_full b)
     \<and> b' = replicate (nat n) zero_row @ filter (\<lambda>r. \<not> row_full r) b
     \<and> board_ok b'
     \<and> list_all (\<lambda>r. \<not> row_full r) b'
     \<and> occupied b' + TETRIS_WIDTH * nat n = occupied b"
proof -
  let ?keep = "filter (\<lambda>r. \<not> row_full r) b"
  let ?b' = "replicate (count_full b) zero_row @ ?keep"
  from assms have len: "length b = TETRIS_HEIGHT"
    and rows: "list_all (\<lambda>r. length r = TETRIS_WIDTH) b"
    by (simp_all add: board_ok_def)
  have c: "clear_lines b = Some (?b', int (count_full b))"
    by (rule clear_lines_eq [OF len])
  have "length ?b' = length b"
    using length_filter_split [of row_full b] by (simp add: count_full_def)
  moreover have "list_all (\<lambda>r. length r = TETRIS_WIDTH) ?b'"
    using rows by (auto simp: list_all_iff zero_row_def)
  ultimately have ok: "board_ok ?b'" using len by (simp add: board_ok_def)
  have nf: "list_all (\<lambda>r. \<not> row_full r) ?b'"
    by (auto simp: list_all_iff zero_row_not_full)
  have "occupied ?b' = occupied ?keep"
    by (rule occupied_zero_rows)
  with occupied_split [OF rows]
  have occ: "occupied ?b' + TETRIS_WIDTH * count_full b = occupied b"
    by linarith
  from c ok nf occ show ?thesis by simp
qed


theorem clear_lines_correct_witness:
  "board_ok (replicate 18 zero_row @ [[1,1,1,1,1,1,1,1,1,1], [2,0,2,2,2,2,2,2,2,2]])
   \<and> clear_lines (replicate 18 zero_row @ [[1,1,1,1,1,1,1,1,1,1], [2,0,2,2,2,2,2,2,2,2]])
       = Some (zero_row # replicate 18 zero_row @ [[2,0,2,2,2,2,2,2,2,2]], 1)"
proof -
  let ?b = "replicate 18 zero_row @ [[1,1,1,1,1,1,1,1,1,1], [2,0,2,2,2,2,2,2,2,2::int]]"
  have ok: "board_ok ?b"
    by (simp add: board_ok_def zero_row_def TETRIS_WIDTH_def TETRIS_HEIGHT_def list_all_iff)
  have f1: "row_full [1,1,1,1,1,1,1,1,1,1]"
    by (simp add: row_full_def TETRIS_WIDTH_def upt_rec)
  have f2: "\<not> row_full [2,0,2,2,2,2,2,2,2,2]"
    by (simp add: row_full_def TETRIS_WIDTH_def upt_rec)
  have n: "count_full ?b = 1"
    by (simp add: count_full_def zero_row_not_full f1 f2)
  have k: "filter (\<lambda>r. \<not> row_full r) ?b = replicate 18 zero_row @ [[2,0,2,2,2,2,2,2,2,2]]"
    by (simp add: zero_row_not_full f1 f2)
  from clear_lines_correct [OF ok] obtain b' m where
    "clear_lines ?b = Some (b', m)" "m = int (count_full ?b)"
    "b' = replicate (nat m) zero_row @ filter (\<lambda>r. \<not> row_full r) ?b"
    by blast
  with n k have "clear_lines ?b = Some (zero_row # replicate 18 zero_row @ [[2,0,2,2,2,2,2,2,2,2]], 1)"
    by simp
  with ok show ?thesis by simp
qed

subsection \<open>Tetris: rotation\<close>

lemma upt_4: "[0..<4] = [0, 1, 2, 3]"
  by (simp add: upt_rec)

lemma length4_cases:
  assumes "length (r :: 'a list) = 4"
  obtains a b c d where "r = [a, b, c, d]"
proof -
  from assms obtain a r1 where r: "r = a # r1" and l1: "length r1 = 3"
    by (cases r) auto
  from l1 obtain b r2 where r1: "r1 = b # r2" and l2: "length r2 = 2"
    by (cases r1) auto
  from l2 obtain c r3 where r2: "r2 = c # r3" and l3: "length r3 = 1"
    by (cases r2) auto
  from l3 obtain d where "r3 = [d]"
    by (cases r3) auto
  with r r1 r2 that show thesis by blast
qed

lemma rotate_shape_four:
  assumes "shape_ok s"
  shows "rotate_shape (rotate_shape (rotate_shape (rotate_shape s))) = s"
proof -
  from assms have l: "length s = 4" and rows: "list_all (\<lambda>r. length r = 4) s"
    by (simp_all add: shape_ok_def)
  from l obtain r0 r1 r2 r3 where s: "s = [r0, r1, r2, r3]"
    by (rule length4_cases)
  from rows s have "length r0 = 4" "length r1 = 4" "length r2 = 4" "length r3 = 4"
    by simp_all
  then obtain a0 a1 a2 a3 b0 b1 b2 b3 c0 c1 c2 c3 d0 d1 d2 d3 where
    "r0 = [a0, a1, a2, a3]" "r1 = [b0, b1, b2, b3]"
    "r2 = [c0, c1, c2, c3]" "r3 = [d0, d1, d2, d3]"
    by (metis length4_cases)
  with s show ?thesis
    by (simp add: rotate_shape_def upt_4)
qed

lemma rotate_shape_nth:
  "i < 4 \<Longrightarrow> j < 4 \<Longrightarrow> rotate_shape s ! i ! j = s ! (3 - j) ! i"
  by (simp add: rotate_shape_def)

text \<open>
  Claim C8. \<^verbatim>\<open>rotate_piece\<close> is a quarter turn of the 4x4 shape: cell (i, j) of the
  result is cell (3 - j, i) of the input; four applications give the shape back; the
  fields x, y and type are never touched.
\<close>

theorem rotate_piece_quarter_turn:
  "(\<forall>i<4. \<forall>j<4. shape (rotate_piece p) ! i ! j = shape p ! (3 - j) ! i)
   \<and> (shape_ok (shape p) \<longrightarrow>
        shape (rotate_piece (rotate_piece (rotate_piece (rotate_piece p)))) = shape p)
   \<and> x (rotate_piece p) = x p \<and> y (rotate_piece p) = y p
   \<and> type (rotate_piece p) = type p"
  by (simp add: rotate_piece_def rotate_shape_nth rotate_shape_four)

theorem rotate_piece_quarter_turn_witness:
  "shape_ok [[0,0,0,0], [1,1,1,0], [0,1,0,0], [0,0,0,0]]
   \<and> (1::nat) < 4 \<and> (2::nat) < 4
   \<and> shape (rotate_piece \<lparr>shape = [[0,0,0,0], [1,1,1,0], [0,1,0,0], [0,0,0,0]],
          x = 3, y = 0, type = 2\<rparr>) ! 1 ! 2 = 1
   \<and> shape (rotate_piece (rotate_piece (rotate_piece (rotate_piece
          \<lparr>shape = [[0,0,0,0], [1,1,1,0], [0,1,0,0], [0,0,0,0]], x = 3, y = 0, type = 2\<rparr>))))
       = [[0,0,0,0], [1,1,1,0], [0,1,0,0], [0,0,0,0]]"
  using rotate_piece_quarter_turn
    [of "\<lparr>shape = [[0,0,0,0], [1,1,1,0], [0,1,0,0], [0,0,0,0]], x = 3, y = 0, type = 2\<rparr>"]
  by (simp add: shape_ok_def)

subsection \<open>Shell OS: the log is a ring of 50 entries\<close>

lemma log_line_cong:
  "system_time_offset s = system_time_offset st \<Longrightarrow> time_sync_base s = time_sync_base st
   \<Longrightarrow> log_line lt s c m = log_line lt st c m"
  by (simp add: log_line_def get_current_time_def)

lemma run_log_time [simp]:
  "system_time_offset (run_log lt st calls) = system_time_offset st"
  "time_sync_base (run_log lt st calls) = time_sync_base st"
  by (induction calls rule: rev_induct) (simp_all add: run_log_def split_beta)

lemma run_log_snoc:
  "run_log lt st (calls @ [(c, m)]) = log_message lt c (run_log lt st calls) m"
  by (simp add: run_log_def)

lemma ring_invariant:
  assumes "log_empty st"
  shows "log_index (run_log lt st calls) = int (length calls mod 50)
       \<and> log_count (run_log lt st calls) = int (min (length calls) 50)
       \<and> length (log_entries (run_log lt st calls)) = 50
       \<and> (\<forall>j. j < length calls \<and> length calls \<le> j + 50 \<longrightarrow>
             log_entries (run_log lt st calls) ! (j mod 50) = log_history lt st calls ! j)"
proof (induction calls rule: rev_induct)
  case Nil
  from assms show ?case
    by (simp add: run_log_def log_empty_def MAX_LOG_ENTRIES_def)
next
  case (snoc call calls)
  obtain c m where call: "call = (c, m)" by (cases call)
  let ?s = "run_log lt st calls"
  let ?n = "length calls"
  let ?line = "log_line lt st c m"
  from snoc have idx: "log_index ?s = int (?n mod 50)"
    and cnt: "log_count ?s = int (min ?n 50)"
    and len: "length (log_entries ?s) = 50"
    and ent: "\<And>j. j < ?n \<Longrightarrow> ?n \<le> j + 50 \<Longrightarrow>
                log_entries ?s ! (j mod 50) = log_history lt st calls ! j"
    by simp_all
  have line: "log_line lt ?s c m = ?line"
    by (rule log_line_cong) simp_all
  let ?s' = "log_message lt c ?s m"
  have s': "run_log lt st (calls @ [call]) = ?s'"
    by (simp add: call run_log_snoc)
  have e': "log_entries ?s' = (log_entries ?s)[?n mod 50 := ?line]"
    by (simp add: log_message_def Let_def idx line)
  have i': "log_index ?s' = int (Suc ?n mod 50)"
  proof -
    have "log_index ?s' = (int (?n mod 50) + 1) smod 50"
      by (simp add: log_message_def Let_def idx MAX_LOG_ENTRIES_def)
    also have "\<dots> = (int (?n mod 50) + 1) mod 50"
      by (rule smod_nonneg) simp_all
    also have "\<dots> = int (Suc ?n mod 50)"
      by (simp add: zmod_int) presburger
    finally show ?thesis .
  qed
  have c': "log_count ?s' = int (min (Suc ?n) 50)"
    by (simp add: log_message_def Let_def cnt MAX_LOG_ENTRIES_def min_def)
  have l': "length (log_entries ?s') = 50"
    by (simp add: e' len)
  have h': "log_history lt st (calls @ [call]) = log_history lt st calls @ [?line]"
    by (simp add: log_history_def call)
  have n': "\<And>j. j < Suc ?n \<Longrightarrow> Suc ?n \<le> j + 50 \<Longrightarrow>
             log_entries ?s' ! (j mod 50) = log_history lt st (calls @ [call]) ! j"
  proof -
    fix j assume j: "j < Suc ?n" "Suc ?n \<le> j + 50"
    show "log_entries ?s' ! (j mod 50) = log_history lt st (calls @ [call]) ! j"
    proof (cases "j = ?n")
      case True
      then show ?thesis
        by (simp add: e' h' len log_history_def nth_append call)
    next
      case False
      with j have jn: "j < ?n" and d: "?n - j < 50" by simp_all
      have "j mod 50 \<noteq> ?n mod 50"
      proof
        assume a: "j mod 50 = ?n mod 50"
        from jn have le: "j \<le> ?n" by simp
        from mod_eq_dvd_iff_nat [OF le, of 50] a have "50 dvd ?n - j" by simp
        then have "50 \<le> ?n - j" using jn by (intro dvd_imp_le) simp_all
        with d show False by simp
      qed
      then have "log_entries ?s' ! (j mod 50) = log_entries ?s ! (j mod 50)"
        by (simp add: e')
      also have "\<dots> = log_history lt st calls ! j"
        using jn j by (intro ent) simp_all
      finally show ?thesis
        using jn by (simp add: h' nth_append log_history_def call)
    qed
  qed
  from i' c' l' n' show ?case
    unfolding s' by simp
qed


lemma view_log_lines:
  assumes "log_empty st" "calls \<noteq> []"
  shows "view_log (run_log lt st calls)
         = map (\<lambda>e. e @ [CHR 0x0A]) (drop (length calls - 50) (log_history lt st calls))"
proof -
  let ?s = "run_log lt st calls"
  let ?n = "length calls"
  let ?c = "min ?n 50"
  let ?H = "log_history lt st calls"
  from ring_invariant [OF assms(1), of lt calls]
  have idx: "log_index ?s = int (?n mod 50)"
    and cnt: "log_count ?s = int ?c"
    and ent: "\<And>j. j < ?n \<Longrightarrow> ?n \<le> j + 50 \<Longrightarrow> log_entries ?s ! (j mod 50) = ?H ! j"
    by simp_all
  from assms(2) have c0: "0 < ?c" by simp
  have lenH: "length ?H = ?n" by (simp add: log_history_def)
  define start where "start = (log_index ?s - log_count ?s + MAX_LOG_ENTRIES) smod MAX_LOG_ENTRIES"
  have start: "start = (int ?n - int ?c) mod 50"
  proof -
    have "0 \<le> int (?n mod 50) - int ?c + 50" by simp
    then have "start = (int (?n mod 50) - int ?c + 50) mod 50"
      by (simp add: start_def idx cnt MAX_LOG_ENTRIES_def smod_nonneg)
    also have "\<dots> = (int ?n - int ?c) mod 50"
      by (simp add: zmod_int mod_diff_left_eq)
    finally show ?thesis .
  qed
  have row: "log_entries ?s ! nat ((start + int i) smod MAX_LOG_ENTRIES) = ?H ! (?n - ?c + i)"
    if i: "i < ?c" for i
  proof -
    have "0 \<le> start" by (simp add: start)
    then have "(start + int i) smod MAX_LOG_ENTRIES = (start + int i) mod 50"
      by (simp add: MAX_LOG_ENTRIES_def smod_nonneg)
    also have "\<dots> = (int ?n - int ?c + int i) mod 50"
      by (simp add: start mod_add_left_eq)
    also have "int ?n - int ?c + int i = int (?n - ?c + i)"
      by simp
    also have "int (?n - ?c + i) mod 50 = int ((?n - ?c + i) mod 50)"
      by (simp only: zmod_int of_nat_numeral)
    finally have "nat ((start + int i) smod MAX_LOG_ENTRIES) = (?n - ?c + i) mod 50"
      by (simp only: nat_int)
    moreover have "log_entries ?s ! ((?n - ?c + i) mod 50) = ?H ! (?n - ?c + i)"
      using i by (intro ent) auto
    ultimately show ?thesis by simp
  qed
  have "view_log ?s = map (\<lambda>i. log_entries ?s ! nat ((start + int i) smod MAX_LOG_ENTRIES)
                              @ [CHR 0x0A]) [0..<?c]"
    using c0 by (simp add: view_log_def cnt start_def Let_def)
  also have "\<dots> = map (\<lambda>i. ?H ! (?n - ?c + i) @ [CHR 0x0A]) [0..<?c]"
    using row by simp
  also have "\<dots> = map (\<lambda>e. e @ [CHR 0x0A]) (map (\<lambda>i. ?H ! (?n - ?c + i)) [0..<?c])"
    by (simp add: comp_def)
  also have "map (\<lambda>i. ?H ! (?n - ?c + i)) [0..<?c] = drop (?n - ?c) ?H"
    by (rule nth_equalityI) (auto simp: lenH)
  also have "?n - ?c = ?n - 50" by simp
  finally show ?thesis .
qed

text \<open>
  Claim C9. Starting from the empty log, after any sequence of \<^verbatim>\<open>log_message\<close> calls the
  index stays in 0..49 and the count in 0..50; the count is the number of calls capped at
  50; with no call made \<^verbatim>\<open>view_log\<close> prints that there are no entries; otherwise it
  prints \<open>log_count\<close> lines, which are the last (at most 50) entries written, oldest
  first: older entries have been overwritten.
\<close>

theorem log_ring_buffer:
  assumes "log_empty st"
  shows "0 \<le> log_count (run_log lt st calls) \<and> log_count (run_log lt st calls) \<le> 50
       \<and> 0 \<le> log_index (run_log lt st calls) \<and> log_index (run_log lt st calls) < 50
       \<and> log_count (run_log lt st calls) = min (int (length calls)) 50
       \<and> (calls = [] \<longrightarrow> view_log (run_log lt st calls) = [''No log entries yet'' @ [CHR 0x0A]])
       \<and> (calls \<noteq> [] \<longrightarrow>
            view_log (run_log lt st calls)
              = map (\<lambda>e. e @ [CHR 0x0A]) (drop (length calls - 50) (log_history lt st calls))
            \<and> int (length (view_log (run_log lt st calls))) = log_count (run_log lt st calls))"
proof -
  from ring_invariant [OF assms, of lt calls]
  have idx: "log_index (run_log lt st calls) = int (length calls mod 50)"
    and cnt: "log_count (run_log lt st calls) = int (min (length calls) 50)"
    by simp_all
  have v: "calls \<noteq> [] \<Longrightarrow> view_log (run_log lt st calls)
      = map (\<lambda>e. e @ [CHR 0x0A]) (drop (length calls - 50) (log_history lt st calls))"
    by (rule view_log_lines [OF assms])
  have l: "calls \<noteq> [] \<Longrightarrow>
      int (length (view_log (run_log lt st calls))) = log_count (run_log lt st calls)"
    by (simp add: v cnt log_history_def min_def)
  have e: "calls = [] \<Longrightarrow> view_log (run_log lt st calls) = [''No log entries yet'' @ [CHR 0x0A]]"
    using assms by (simp add: run_log_def view_log_def log_empty_def)
  from idx cnt v l e show ?thesis by (simp add: min_def)
qed

lemma uptime_examples:
  "unat (to_ms_since_boot 1000000 div 1000) = 1" "unat (to_ms_since_boot 2000000 div 1000) = 2"
  by (simp_all add: to_ms_since_boot_def)

lemma fmt_u_examples:
  "fmt_u 5 1 = ''00001''" "fmt_u 5 (Suc 0) = ''00001''" "fmt_u 5 2 = ''00002''"
  by (simp_all add: fmt_u_def dec.simps digit_char_def numeral_eq_Suc)

theorem log_ring_buffer_witness:
  "log_empty boot_state
   \<and> log_count (run_log sample_localtime boot_state [(1000000, ''a''), (2000000, ''b'')]) = 2
   \<and> view_log (run_log sample_localtime boot_state [(1000000, ''a''), (2000000, ''b'')])
       = [''[+00001s] a'' @ [CHR 0x0A], ''[+00002s] b'' @ [CHR 0x0A]]"
proof -
  have e: "log_empty boot_state"
    by (simp add: log_empty_def boot_state_def)
  have g: "get_current_time boot_state c = 0" for c
    by (simp add: get_current_time_def boot_state_def)
  have h: "log_history sample_localtime boot_state [(1000000, ''a''), (2000000, ''b'')]
           = [''[+00001s] a'', ''[+00002s] b'']"
    by (simp add: log_history_def log_line_def g uptime_examples fmt_u_examples snprintf_def)
  from log_ring_buffer [OF e, of sample_localtime "[(1000000, ''a''), (2000000, ''b'')]"] h e
  show ?thesis by simp
qed

subsection \<open>Shell OS: time 0 means not set\<close>

lemma set_times_zero:
  "system_time_offset st = 0 \<Longrightarrow> \<forall>c \<in> set calls. fst c = 0
   \<Longrightarrow> system_time_offset (set_times calls st) = 0"
  by (induction calls rule: rev_induct)
     (auto simp: set_times_def set_current_time_def split_beta)

lemma unset_consumers:
  assumes "get_current_time st clock = 0"
  shows "show_time lt st clock = not_synced_notice
       \<and> print_prompt lt st clock = uptime_prompt clock
       \<and> log_line lt st clock msg = uptime_log_line clock msg"
  using assms
  by (simp add: show_time_def print_prompt_def log_line_def Let_def not_synced_notice_def
                    uptime_prompt_def uptime_log_line_def)

text \<open>
  Claim C10 (as amended). \<^verbatim>\<open>get_current_time\<close> returns 0 as long as every call of
  \<^verbatim>\<open>set_current_time\<close> so far passed 0. On a returned 0 the shell prompt and the log
  timestamps fall back to the uptime, and the time command prints the notice
  ``Time not synchronized yet''. Setting the clock to exactly 0 therefore looks, through
  \<^verbatim>\<open>get_current_time\<close> and these three consumers, like a clock that was never set.
\<close>

theorem zero_time_sentinel:
  "(system_time_offset st = 0 \<and> (\<forall>c \<in> set calls. fst c = 0) \<longrightarrow>
      get_current_time (set_times calls st) clock = 0)
   \<and> (get_current_time st clock = 0 \<longrightarrow>
        print_prompt lt st clock = uptime_prompt clock
        \<and> log_line lt st clock msg = uptime_log_line clock msg
        \<and> show_time lt st clock = not_synced_notice)
   \<and> (system_time_offset st = 0 \<longrightarrow>
        get_current_time (set_current_time 0 t st) clock = get_current_time st clock
        \<and> print_prompt lt (set_current_time 0 t st) clock = print_prompt lt st clock
        \<and> log_line lt (set_current_time 0 t st) clock msg = log_line lt st clock msg
        \<and> show_time lt (set_current_time 0 t st) clock = show_time lt st clock)"
proof -
  have a: "system_time_offset st = 0 \<Longrightarrow> \<forall>c \<in> set calls. fst c = 0 \<Longrightarrow>
           get_current_time (set_times calls st) clock = 0"
    by (simp add: get_current_time_def set_times_zero)
  have z: "get_current_time (set_current_time 0 t st) clock = 0"
    by (simp add: get_current_time_def set_current_time_def)
  have s: "system_time_offset st = 0 \<Longrightarrow> get_current_time st clock = 0"
    by (simp add: get_current_time_def)
  from a z s unset_consumers [of st clock lt msg]
    unset_consumers [of "set_current_time 0 t st" clock lt msg]
  show ?thesis by simp
qed

theorem zero_time_sentinel_witness:
  "system_time_offset boot_state = 0
   \<and> get_current_time (set_times [(0, 5), (0, 9)] boot_state) 5000000 = 0
   \<and> get_current_time boot_state 5000000 = 0
   \<and> print_prompt sample_localtime boot_state 5000000 = uptime_prompt 5000000
   \<and> show_time sample_localtime (set_current_time 0 9 boot_state) 5000000
       = show_time sample_localtime boot_state 5000000"
  using zero_time_sentinel [of boot_state "[(0, 5), (0, 9)]" 5000000 sample_localtime
                               "''boot''" 9]
  by (simp add: boot_state_def get_current_time_def)

text \<open>
  Claim C10 as stated fails for the time command: with no time set it shows no uptime. Its
  output is the same notice five and nine seconds after boot, while the prompt changes.
\<close>

theorem show_time_without_uptime:
  "get_current_time boot_state 5000000 = 0 \<and> get_current_time boot_state 9000000 = 0
   \<and> show_time sample_localtime boot_state 5000000 = not_synced_notice
   \<and> show_time sample_localtime boot_state 9000000 = not_synced_notice
   \<and> print_prompt sample_localtime boot_state 5000000
       \<noteq> print_prompt sample_localtime boot_state 9000000"
proof -
  have g: "get_current_time boot_state c = 0" for c
    by (simp add: get_current_time_def boot_state_def)
  have u: "unat (to_ms_since_boot 5000000 div 1000) = 5"
    "unat (to_ms_since_boot 9000000 div 1000) = 9"
    by (simp_all add: to_ms_since_boot_def)
  have f: "fmt_u 5 5 = ''00005''" "fmt_u 5 9 = ''00009''"
    by (simp_all add: fmt_u_def dec.simps digit_char_def numeral_eq_Suc)
  show ?thesis
    by (simp add: g show_time_def print_prompt_def Let_def not_synced_notice_def u f)
qed

end
